theory Spec2Isabelle
  imports Main "HOL-Library.Word"
begin

unbundle bit_operations_syntax

section \<open>Data model\<close>

text \<open>
  The type declarations of the repository (\<^verbatim>\<open>@/types\<close>) are not among the source files;
  the records below carry the fields that the codec reads and writes
  (\<^verbatim>\<open>id\<close>, \<^verbatim>\<open>homeTeam\<close>, \<^verbatim>\<open>awayTeam\<close>, \<^verbatim>\<open>winner\<close>, \<^verbatim>\<open>afc\<close>, \<^verbatim>\<open>nfc\<close>,
  \<^verbatim>\<open>wildCard\<close>, \<^verbatim>\<open>divisional\<close>, \<^verbatim>\<open>championship\<close>, \<^verbatim>\<open>superBowl\<close>, \<^verbatim>\<open>userName\<close>,
  \<^verbatim>\<open>isComplete\<close>) together with the team and bracket attributes of the data model.
  A value that may be \<^verbatim>\<open>null\<close> or \<^verbatim>\<open>undefined\<close> is an \<open>option\<close>.  The \<^verbatim>\<open>id\<close> of a
  matchup is optional because an object built by spreading an absent matchup
  (\<^verbatim>\<open>{...undefined, homeTeam, awayTeam}\<close>) has none.
\<close>

datatype conference = AFC | NFC

record team =
  team_id :: string
  team_conference :: conference
  seed :: nat
  team_name :: string
  city :: string

record matchup =
  matchup_id :: "string option"
  homeTeam :: "team option"
  awayTeam :: "team option"
  winner :: "team option"

record conference_bracket =
  wildCard :: "matchup list"
  divisional :: "matchup list"
  championship :: "matchup option"

record bracket_state =
  afc :: conference_bracket
  nfc :: conference_bracket
  superBowl :: "matchup option"
  userName :: string
  bracketName :: string
  isComplete :: bool

text \<open>Reading a JavaScript array at an index: out of range the value is \<^verbatim>\<open>undefined\<close>.\<close>

definition at_index :: "'a list \<Rightarrow> nat \<Rightarrow> 'a option" where
  "at_index xs i = (if i < length xs then Some (xs ! i) else None)"

section \<open>Winner codes and the fixed matchup order\<close>

text \<open>
  \<^verbatim>\<open>getWinnerCode\<close>: 0 when the matchup or its winner is absent, 1 when the home team is
  present and has the winner's id, 2 when the away team is present and has the winner's
  id, 0 otherwise.  Every property access of the source is guarded by the test before it.
\<close>

definition getWinnerCode :: "matchup option \<Rightarrow> nat" where
  "getWinnerCode mo =
     (case mo of
        None \<Rightarrow> 0
      | Some m \<Rightarrow>
          (case winner m of
             None \<Rightarrow> 0
           | Some w \<Rightarrow>
               if (case homeTeam m of None \<Rightarrow> False | Some h \<Rightarrow> team_id w = team_id h) then 1
               else if (case awayTeam m of None \<Rightarrow> False | Some a \<Rightarrow> team_id w = team_id a) then 2
               else 0))"

definition getAllMatchupsOrdered :: "bracket_state \<Rightarrow> matchup option list" where
  "getAllMatchupsOrdered bracket =
     [at_index (wildCard (afc bracket)) 0,
      at_index (wildCard (afc bracket)) 1,
      at_index (wildCard (afc bracket)) 2,
      at_index (wildCard (nfc bracket)) 0,
      at_index (wildCard (nfc bracket)) 1,
      at_index (wildCard (nfc bracket)) 2,
      at_index (divisional (afc bracket)) 0,
      at_index (divisional (afc bracket)) 1,
      at_index (divisional (nfc bracket)) 0,
      at_index (divisional (nfc bracket)) 1,
      championship (afc bracket),
      championship (nfc bracket),
      superBowl bracket]"

section \<open>Packing the codes into four bytes\<close>

text \<open>
  The bitwise operators of JavaScript work on 32-bit integers: \<^verbatim>\<open>packed\<close> is a
  \<open>32 word\<close>, \<^verbatim>\<open><<\<close> takes its shift count modulo 32, \<^verbatim>\<open>>>\<close> is the arithmetic shift.
  The loop \<^verbatim>\<open>for (i = 0; i < codes.length; i++) packed |= codes[i] << (i * 2)\<close> runs over
  the remaining codes with the index \<open>i\<close>.
\<close>

fun packLoop :: "nat list \<Rightarrow> nat \<Rightarrow> 32 word \<Rightarrow> 32 word" where
  "packLoop [] i packed = packed"
| "packLoop (c # cs) i packed =
     packLoop cs (i + 1) (packed OR push_bit ((i * 2) mod 32) (of_nat c))"

definition packCodes :: "nat list \<Rightarrow> 32 word" where
  "packCodes codes = packLoop codes 0 0"

definition packedBytes :: "32 word \<Rightarrow> 8 word list" where
  "packedBytes packed =
     [ucast (signed_drop_bit 0 packed AND 0xff),
      ucast (signed_drop_bit 8 packed AND 0xff),
      ucast (signed_drop_bit 16 packed AND 0xff),
      ucast (signed_drop_bit 24 packed AND 0xff)]"

definition bracketCodes :: "bracket_state \<Rightarrow> nat list" where
  "bracketCodes bracket = map getWinnerCode (getAllMatchupsOrdered bracket)"

definition bracketPacked :: "bracket_state \<Rightarrow> 32 word" where
  "bracketPacked bracket = packCodes (bracketCodes bracket)"

definition bracketBytes :: "bracket_state \<Rightarrow> 8 word list" where
  "bracketBytes bracket = packedBytes (bracketPacked bracket)"

section \<open>Base64\<close>

text \<open>
  \<^verbatim>\<open>btoa\<close> and \<^verbatim>\<open>atob\<close> are functions of the platform; they are modelled after the
  base64 alphabet of RFC 4648 and the forgiving-base64 decoding of the HTML standard.
  A binary string (code units 0 to 255) is a list of bytes, so \<^verbatim>\<open>String.fromCharCode\<close>
  and \<^verbatim>\<open>charCodeAt\<close> are the identity.  A token is a \<open>string\<close>; a code unit above 255
  is outside every character class below, as every character from 128 on is.
\<close>

datatype error = InvalidCharacterError | TypeError

definition b64char :: "nat \<Rightarrow> char" where
  "b64char n =
     (if n < 26 then char_of (65 + n)
      else if n < 52 then char_of (71 + n)
      else if n < 62 then char_of (n - 4)
      else if n = 62 then CHR ''+''
      else CHR ''/'')"

definition b64index :: "char \<Rightarrow> nat option" where
  "b64index c =
     (let k = (of_char c :: nat) in
      if 65 \<le> k \<and> k \<le> 90 then Some (k - 65)
      else if 97 \<le> k \<and> k \<le> 122 then Some (k - 71)
      else if 48 \<le> k \<and> k \<le> 57 then Some (k + 4)
      else if k = 43 then Some 62
      else if k = 47 then Some 63
      else None)"

fun btoa :: "8 word list \<Rightarrow> string" where
  "btoa [] = []"
| "btoa [a] =
     [b64char (unat a div 4), b64char ((unat a mod 4) * 16), CHR ''='', CHR ''='']"
| "btoa [a, b] =
     [b64char (unat a div 4), b64char ((unat a mod 4) * 16 + unat b div 16),
      b64char ((unat b mod 16) * 4), CHR ''='']"
| "btoa (a # b # c # rest) =
     [b64char (unat a div 4), b64char ((unat a mod 4) * 16 + unat b div 16),
      b64char ((unat b mod 16) * 4 + unat c div 64), b64char (unat c mod 64)] @ btoa rest"

definition isAsciiWhitespace :: "char \<Rightarrow> bool" where
  "isAsciiWhitespace c = ((of_char c :: nat) \<in> {9, 10, 12, 13, 32})"

text \<open>Forgiving-base64 decode, step 2: a data of length divisible by 4 loses one or two
  trailing \<^verbatim>\<open>=\<close>.\<close>

definition removePadding :: "string \<Rightarrow> string" where
  "removePadding d =
     (if length d mod 4 = 0 then
        (if 2 \<le> length d \<and> last d = CHR ''='' \<and> last (butlast d) = CHR ''=''
           then butlast (butlast d)
         else if 1 \<le> length d \<and> last d = CHR ''='' then butlast d
         else d)
      else d)"

text \<open>Sextets to bytes: 24 bits give three bytes; 12 bits left over give one byte and
  18 bits two, the last bits being discarded.\<close>

fun sextetsToBytes :: "nat list \<Rightarrow> 8 word list" where
  "sextetsToBytes (a # b # c # d # rest) =
     [of_nat (a * 4 + b div 16), of_nat ((b mod 16) * 16 + c div 4), of_nat ((c mod 4) * 64 + d)]
       @ sextetsToBytes rest"
| "sextetsToBytes [a, b, c] = [of_nat (a * 4 + b div 16), of_nat ((b mod 16) * 16 + c div 4)]"
| "sextetsToBytes [a, b] = [of_nat (a * 4 + b div 16)]"
| "sextetsToBytes _ = []"

definition atob :: "string \<Rightarrow> error + 8 word list" where
  "atob s =
     (let d = removePadding (filter (\<lambda>c. \<not> isAsciiWhitespace c) s) in
      if length d mod 4 = 1 then Inl InvalidCharacterError
      else (case those (map b64index d) of
              None \<Rightarrow> Inl InvalidCharacterError
            | Some sextets \<Rightarrow> Inr (sextetsToBytes sextets)))"

section \<open>Encoding and decoding\<close>

text \<open>\<^verbatim>\<open>s.replace(/x/g, "y")\<close> for single characters, and \<^verbatim>\<open>s.replace(/=+$/, "")\<close>.\<close>

definition replaceAll :: "char \<Rightarrow> char \<Rightarrow> string \<Rightarrow> string" where
  "replaceAll x y s = map (\<lambda>c. if c = x then y else c) s"

definition stripTrailingEquals :: "string \<Rightarrow> string" where
  "stripTrailingEquals s = rev (dropWhile (\<lambda>c. c = CHR ''='') (rev s))"

definition encodeBytes :: "8 word list \<Rightarrow> string" where
  "encodeBytes bytes =
     stripTrailingEquals (replaceAll (CHR ''/'') (CHR ''_'') (replaceAll (CHR ''+'') (CHR ''-'') (btoa bytes)))"

definition encodeBracketPicks :: "bracket_state \<Rightarrow> string" where
  "encodeBracketPicks bracket = encodeBytes (bracketBytes bracket)"

text \<open>The loop \<^verbatim>\<open>while (base64.length % 4) base64 += "="\<close>.\<close>

function restorePadding :: "string \<Rightarrow> string" where
  "restorePadding base64 =
     (if length base64 mod 4 \<noteq> 0 then restorePadding (base64 @ ''='') else base64)"
  by pat_completeness auto
termination
proof (relation "measure (\<lambda>s. (4 - length s mod 4) mod 4)")
  show "wf (measure (\<lambda>s. (4 - length s mod 4) mod 4))"
    by simp
next
  fix base64 :: string
  assume "length base64 mod 4 \<noteq> 0"
  moreover have "length base64 mod 4 < 4"
    by simp
  ultimately have "length base64 mod 4 = 1 \<or> length base64 mod 4 = 2 \<or> length base64 mod 4 = 3"
    by linarith
  then show "(base64 @ ''='', base64) \<in> measure (\<lambda>s. (4 - length s mod 4) mod 4)"
    by (auto simp: mod_Suc)
qed

text \<open>Reading a \<^verbatim>\<open>Uint8Array\<close> beyond its length gives \<^verbatim>\<open>undefined\<close>, which the bitwise
  operators take as 0.\<close>

definition byteAt :: "8 word list \<Rightarrow> nat \<Rightarrow> 32 word" where
  "byteAt bytes i = (if i < length bytes then ucast (bytes ! i) else 0)"

definition unpackBytes :: "8 word list \<Rightarrow> 32 word" where
  "unpackBytes bytes =
     byteAt bytes 0 OR push_bit 8 (byteAt bytes 1) OR push_bit 16 (byteAt bytes 2)
       OR push_bit 24 (byteAt bytes 3)"

definition extractCodes :: "32 word \<Rightarrow> nat list" where
  "extractCodes packed = map (\<lambda>i. unat (signed_drop_bit (i * 2) packed AND 0x03)) [0..<13]"

definition decodeBracketPicks :: "string \<Rightarrow> error + nat list" where
  "decodeBracketPicks encoded =
     (let base64 = restorePadding (replaceAll (CHR ''_'') (CHR ''/'') (replaceAll (CHR ''-'') (CHR ''+'') encoded))
      in case atob base64 of
           Inl e \<Rightarrow> Inl e
         | Inr bytes \<Rightarrow> Inr (extractCodes (unpackBytes bytes)))"

section \<open>The playoff rules used by the codec\<close>

text \<open>
  \<^verbatim>\<open>applyPicksToFreshBracket\<close> calls four functions of the module \<^verbatim>\<open>./playoff-rules\<close>,
  which is not among the source files.  The codec is modelled over any such functions:
  they are the fields of a record of rules, taken as pure and total (they return a value
  for every argument and raise nothing).
\<close>

record pairing =
  home :: "team option"
  away :: "team option"

record divisional_pairing =
  matchup1 :: pairing
  matchup2 :: pairing

record playoff_rules =
  createInitialBracketFn :: "string \<Rightarrow> bracket_state"
  calculateDivisionalMatchupsFn :: "conference \<Rightarrow> team option list \<Rightarrow> divisional_pairing"
  calculateChampionshipMatchupFn :: "team option list \<Rightarrow> pairing"
  isBracketCompleteFn :: "bracket_state \<Rightarrow> bool"

section \<open>Applying codes to a fresh bracket\<close>

text \<open>
  \<^verbatim>\<open>applyCode\<close>: code 0 returns the matchup as it is; otherwise the winner becomes the
  home team when the code is 1 and the away team for any other value (also for
  \<^verbatim>\<open>undefined\<close>, the code read beyond the end of the array).
\<close>

definition applyCode :: "matchup \<Rightarrow> nat option \<Rightarrow> matchup" where
  "applyCode m code =
     (if code = Some 0 then m
      else m\<lparr>winner := (if code = Some 1 then homeTeam m else awayTeam m)\<rparr>)"

text \<open>The object \<^verbatim>\<open>{...m, homeTeam: h, awayTeam: a}\<close>, where \<^verbatim>\<open>m\<close> may be absent.\<close>

definition spreadWithTeams :: "matchup option \<Rightarrow> team option \<Rightarrow> team option \<Rightarrow> matchup" where
  "spreadWithTeams mo h a =
     (case mo of
        None \<Rightarrow> \<lparr>matchup_id = None, homeTeam = h, awayTeam = a, winner = None\<rparr>
      | Some m \<Rightarrow> m\<lparr>homeTeam := h, awayTeam := a\<rparr>)"

text \<open>
  \<^verbatim>\<open>applyPicksToFreshBracket\<close> updates the fresh bracket in place, round by round; the
  model names each intermediate value as the source does and returns the final bracket.
  The arrays and matchups of the fresh bracket are taken as not shared with one another.
  The wild card arrays are read at the indices 0 to 2; an absent element makes
  \<^verbatim>\<open>applyCode\<close> or the following \<^verbatim>\<open>map((m) => m.winner)\<close> throw a \<^verbatim>\<open>TypeError\<close>.  An
  absent divisional, championship or Super Bowl matchup is spread into an object with the
  two teams only.  \<^verbatim>\<open>isBracketComplete\<close> is called on the bracket with all codes applied
  and the flag of the fresh bracket.
\<close>

definition applyPicksToFreshBracket :: "playoff_rules \<Rightarrow> nat list \<Rightarrow> string \<Rightarrow> error + bracket_state" where
  "applyPicksToFreshBracket rules codes name =
     (let bracket = createInitialBracketFn rules name in
      if length (wildCard (afc bracket)) < 3 \<or> length (wildCard (nfc bracket)) < 3
      then Inl TypeError
      else
        let afcWildCard =
              [applyCode (wildCard (afc bracket) ! 0) (at_index codes 0),
               applyCode (wildCard (afc bracket) ! 1) (at_index codes 1),
               applyCode (wildCard (afc bracket) ! 2) (at_index codes 2)];
            nfcWildCard =
              [applyCode (wildCard (nfc bracket) ! 0) (at_index codes 3),
               applyCode (wildCard (nfc bracket) ! 1) (at_index codes 4),
               applyCode (wildCard (nfc bracket) ! 2) (at_index codes 5)];
            afcWcWinners = map winner afcWildCard;
            nfcWcWinners = map winner nfcWildCard;
            afcDiv = calculateDivisionalMatchupsFn rules AFC afcWcWinners;
            afcDivisional =
              [applyCode (spreadWithTeams (at_index (divisional (afc bracket)) 0)
                            (home (matchup1 afcDiv)) (away (matchup1 afcDiv))) (at_index codes 6),
               applyCode (spreadWithTeams (at_index (divisional (afc bracket)) 1)
                            (home (matchup2 afcDiv)) (away (matchup2 afcDiv))) (at_index codes 7)];
            nfcDiv = calculateDivisionalMatchupsFn rules NFC nfcWcWinners;
            nfcDivisional =
              [applyCode (spreadWithTeams (at_index (divisional (nfc bracket)) 0)
                            (home (matchup1 nfcDiv)) (away (matchup1 nfcDiv))) (at_index codes 8),
               applyCode (spreadWithTeams (at_index (divisional (nfc bracket)) 1)
                            (home (matchup2 nfcDiv)) (away (matchup2 nfcDiv))) (at_index codes 9)];
            afcDivWinners = map winner afcDivisional;
            afcChamp = calculateChampionshipMatchupFn rules afcDivWinners;
            afcChampionship =
              applyCode (spreadWithTeams (championship (afc bracket)) (home afcChamp) (away afcChamp))
                (at_index codes 10);
            nfcDivWinners = map winner nfcDivisional;
            nfcChamp = calculateChampionshipMatchupFn rules nfcDivWinners;
            nfcChampionship =
              applyCode (spreadWithTeams (championship (nfc bracket)) (home nfcChamp) (away nfcChamp))
                (at_index codes 11);
            afcChampWinner = winner afcChampionship;
            nfcChampWinner = winner nfcChampionship;
            superBowl' =
              applyCode (spreadWithTeams (superBowl bracket) afcChampWinner nfcChampWinner)
                (at_index codes 12);
            bracket' = bracket
              \<lparr>afc := (afc bracket)
                 \<lparr>wildCard := afcWildCard, divisional := afcDivisional,
                  championship := Some afcChampionship\<rparr>,
               nfc := (nfc bracket)
                 \<lparr>wildCard := nfcWildCard, divisional := nfcDivisional,
                  championship := Some nfcChampionship\<rparr>,
               superBowl := Some superBowl'\<rparr>
        in Inr (bracket'\<lparr>isComplete := isBracketCompleteFn rules bracket'\<rparr>))"

text \<open>Encoding a bracket, decoding the token and applying the codes for the same owner.\<close>

definition roundTrip :: "playoff_rules \<Rightarrow> bracket_state \<Rightarrow> error + bracket_state" where
  "roundTrip rules S =
     (case decodeBracketPicks (encodeBracketPicks S) of
        Inl e \<Rightarrow> Inl e
      | Inr codes \<Rightarrow> applyPicksToFreshBracket rules codes (userName S))"

section \<open>The playoff rules as the specification describes them\<close>

text \<open>
  Modelled from the spec: the team table of the playoff field, which is not among the
  source files.  It is a parameter \<open>seeds\<close> giving the team of a conference at a seed.
\<close>

type_synonym seeding = "conference \<Rightarrow> nat \<Rightarrow> team"

text \<open>
  Modelled from the spec: \<^verbatim>\<open>createInitialBracket\<close> of \<^verbatim>\<open>./playoff-rules\<close>, which is not
  among the source files: three wild card matchups per conference with the fixed
  seeding 2 v 7, 3 v 6, 4 v 5 (seed 1 has a bye, the higher seed is at home), every later
  round empty (its matchups have no teams and no winner), not complete.  The matchup ids
  follow the examples \<^verbatim>\<open>afc-wc-1\<close> and \<^verbatim>\<open>super-bowl\<close>; the bracket name is empty.  The
  first four definitions are its parts.
\<close>

definition emptyMatchup :: "string \<Rightarrow> matchup" where
  "emptyMatchup i = \<lparr>matchup_id = Some i, homeTeam = None, awayTeam = None, winner = None\<rparr>"

definition seededMatchup :: "string \<Rightarrow> team \<Rightarrow> team \<Rightarrow> matchup" where
  "seededMatchup i h a = \<lparr>matchup_id = Some i, homeTeam = Some h, awayTeam = Some a, winner = None\<rparr>"

definition conferencePrefix :: "conference \<Rightarrow> string" where
  "conferencePrefix c = (case c of AFC \<Rightarrow> ''afc'' | NFC \<Rightarrow> ''nfc'')"

definition initialConference :: "seeding \<Rightarrow> conference \<Rightarrow> conference_bracket" where
  "initialConference seeds c =
     \<lparr>wildCard =
        [seededMatchup (conferencePrefix c @ ''-wc-1'') (seeds c 2) (seeds c 7),
         seededMatchup (conferencePrefix c @ ''-wc-2'') (seeds c 3) (seeds c 6),
         seededMatchup (conferencePrefix c @ ''-wc-3'') (seeds c 4) (seeds c 5)],
      divisional =
        [emptyMatchup (conferencePrefix c @ ''-div-1''),
         emptyMatchup (conferencePrefix c @ ''-div-2'')],
      championship = Some (emptyMatchup (conferencePrefix c @ ''-champ''))\<rparr>"

definition createInitialBracket :: "seeding \<Rightarrow> string \<Rightarrow> bracket_state" where
  "createInitialBracket seeds ownerName =
     \<lparr>afc = initialConference seeds AFC,
      nfc = initialConference seeds NFC,
      superBowl = Some (emptyMatchup ''super-bowl''),
      userName = ownerName,
      bracketName = [],
      isComplete = False\<rparr>"

text \<open>
  Modelled from the spec: \<^verbatim>\<open>calculateDivisionalMatchups\<close> of \<^verbatim>\<open>./playoff-rules\<close>, which
  is not among the source files.  Seed 1 hosts the lowest remaining seed (the largest seed
  number) of the three wild card winners and the other two meet, the higher seed at home.
  Re-seeding needs all three winners: while one of them is absent, the slots fed by the
  wild card round stay absent and only seed 1 is placed.
\<close>

definition calculateDivisionalMatchups :: "seeding \<Rightarrow> conference \<Rightarrow> team option list \<Rightarrow> divisional_pairing" where
  "calculateDivisionalMatchups seeds c winners =
     (case winners of
        [Some x, Some y, Some z] \<Rightarrow>
          (let sorted = sort_key seed [x, y, z] in
           \<lparr>matchup1 = \<lparr>home = Some (seeds c 1), away = Some (sorted ! 2)\<rparr>,
            matchup2 = \<lparr>home = Some (sorted ! 0), away = Some (sorted ! 1)\<rparr>\<rparr>)
      | _ \<Rightarrow>
          \<lparr>matchup1 = \<lparr>home = Some (seeds c 1), away = None\<rparr>,
           matchup2 = \<lparr>home = None, away = None\<rparr>\<rparr>)"

text \<open>
  Modelled from the spec: \<^verbatim>\<open>calculateChampionshipMatchup\<close> of \<^verbatim>\<open>./playoff-rules\<close>, which
  is not among the source files.  The two divisional winners meet, the higher seed at
  home; an absent winner is an absent slot, the winner that is present keeping its place.
\<close>

definition calculateChampionshipMatchup :: "team option list \<Rightarrow> pairing" where
  "calculateChampionshipMatchup winners =
     (case winners of
        [Some x, Some y] \<Rightarrow>
          (if seed x \<le> seed y then \<lparr>home = Some x, away = Some y\<rparr>
           else \<lparr>home = Some y, away = Some x\<rparr>)
      | [x, y] \<Rightarrow> \<lparr>home = x, away = y\<rparr>
      | _ \<Rightarrow> \<lparr>home = None, away = None\<rparr>)"

text \<open>
  Modelled from the spec: \<^verbatim>\<open>isBracketComplete\<close> of \<^verbatim>\<open>./playoff-rules\<close>, which is not
  among the source files: true iff all 13 matchups have a winner.  The last definition
  collects the four functions as rules for the codec.
\<close>

definition hasWinner :: "matchup option \<Rightarrow> bool" where
  "hasWinner mo = (case mo of None \<Rightarrow> False | Some m \<Rightarrow> winner m \<noteq> None)"

definition isBracketComplete :: "bracket_state \<Rightarrow> bool" where
  "isBracketComplete bracket = list_all hasWinner (getAllMatchupsOrdered bracket)"

definition playoffRules :: "seeding \<Rightarrow> playoff_rules" where
  "playoffRules seeds =
     \<lparr>createInitialBracketFn = createInitialBracket seeds,
      calculateDivisionalMatchupsFn = calculateDivisionalMatchups seeds,
      calculateChampionshipMatchupFn = calculateChampionshipMatchup,
      isBracketCompleteFn = isBracketComplete\<rparr>"

section \<open>Characters and padding of a token\<close>

text \<open>
  The two substitutions of the codec on a single character, the base64url alphabet
  (\<^verbatim>\<open>A\<close> to \<^verbatim>\<open>Z\<close>, \<^verbatim>\<open>a\<close> to \<^verbatim>\<open>z\<close>, \<^verbatim>\<open>0\<close> to \<^verbatim>\<open>9\<close>, \<^verbatim>\<open>-\<close> and \<^verbatim>\<open>_\<close>), and the string that
  \<^verbatim>\<open>decodeBracketPicks\<close> hands to \<^verbatim>\<open>atob\<close>.
\<close>

definition toUrlSafe :: "char \<Rightarrow> char" where
  "toUrlSafe c = (if c = CHR ''+'' then CHR ''-'' else if c = CHR ''/'' then CHR ''_'' else c)"

definition fromUrlSafe :: "char \<Rightarrow> char" where
  "fromUrlSafe c = (if c = CHR ''-'' then CHR ''+'' else if c = CHR ''_'' then CHR ''/'' else c)"

definition isBase64UrlChar :: "char \<Rightarrow> bool" where
  "isBase64UrlChar c =
     (let k = (of_char c :: nat) in
      (65 \<le> k \<and> k \<le> 90) \<or> (97 \<le> k \<and> k \<le> 122) \<or> (48 \<le> k \<and> k \<le> 57) \<or> k = 45 \<or> k = 95)"

definition paddedToken :: "string \<Rightarrow> string" where
  "paddedToken t =
     restorePadding (replaceAll (CHR ''_'') (CHR ''/'') (replaceAll (CHR ''-'') (CHR ''+'') t))"

text \<open>
  A plain character is one that \<^verbatim>\<open>atob\<close> decodes; a rejected character is outside the
  base64url alphabet and is not one of the characters that \<^verbatim>\<open>atob\<close> tolerates besides
  (\<^verbatim>\<open>+\<close>, \<^verbatim>\<open>/\<close>, the padding \<^verbatim>\<open>=\<close> and ASCII whitespace).
\<close>

definition plainChar :: "char \<Rightarrow> bool" where
  "plainChar c = (b64index c \<noteq> None \<and> \<not> isAsciiWhitespace c \<and> c \<noteq> CHR ''='')"

definition rejectedChar :: "char \<Rightarrow> bool" where
  "rejectedChar c =
     (\<not> isBase64UrlChar c \<and> c \<noteq> CHR ''+'' \<and> c \<noteq> CHR ''/'' \<and> c \<noteq> CHR ''=''
      \<and> \<not> isAsciiWhitespace c)"

text \<open>The six sextets that base64 makes of four bytes.\<close>

definition sextets4 :: "8 word \<Rightarrow> 8 word \<Rightarrow> 8 word \<Rightarrow> 8 word \<Rightarrow> nat list" where
  "sextets4 a b c d =
     [unat a div 4, (unat a mod 4) * 16 + unat b div 16, (unat b mod 16) * 4 + unat c div 64,
      unat c mod 64, unat d div 4, (unat d mod 4) * 16]"

section \<open>Valid brackets\<close>

text \<open>
  A matchup is undecided when it is absent or has no winner.  A fresh bracket has its
  three wild card matchups per conference and no winner anywhere.
\<close>

definition undecided :: "matchup option \<Rightarrow> bool" where
  "undecided mo = (case mo of None \<Rightarrow> True | Some m \<Rightarrow> winner m = None)"

definition freshBracket :: "bracket_state \<Rightarrow> bool" where
  "freshBracket F =
     (3 \<le> length (wildCard (afc F)) \<and> 3 \<le> length (wildCard (nfc F))
      \<and> list_all undecided (getAllMatchupsOrdered F))"

definition winnerOf :: "matchup option \<Rightarrow> team option" where
  "winnerOf mo = (case mo of None \<Rightarrow> None | Some m \<Rightarrow> winner m)"

text \<open>
  The invariants of a decided matchup: the recorded winner is the home team or the away
  team, and the id identifies the team (two teams of the matchup with one id are one
  team).  A matchup without a winner satisfies them.
\<close>

definition winnerConsistent :: "matchup \<Rightarrow> bool" where
  "winnerConsistent m =
     (case winner m of
        None \<Rightarrow> True
      | Some w \<Rightarrow>
          (homeTeam m = Some w \<or> awayTeam m = Some w)
          \<and> (case homeTeam m of
                None \<Rightarrow> True
              | Some h \<Rightarrow>
                  (case awayTeam m of None \<Rightarrow> True | Some a \<Rightarrow> team_id h = team_id a \<longrightarrow> h = a)))"

definition slotsAre :: "team option \<Rightarrow> team option \<Rightarrow> matchup \<Rightarrow> bool" where
  "slotsAre h a m = (homeTeam m = h \<and> awayTeam m = a)"

text \<open>
  A matchup is valid for the teams \<open>h\<close> and \<open>a\<close> that feed it when it is absent
  (\<^verbatim>\<open>null\<close>), or has no winner yet (whatever its slots hold), or is decided between
  exactly these two teams.
\<close>

definition matchupValid :: "team option \<Rightarrow> team option \<Rightarrow> matchup option \<Rightarrow> bool" where
  "matchupValid h a mo =
     (case mo of
        None \<Rightarrow> True
      | Some m \<Rightarrow>
          (case winner m of None \<Rightarrow> True | Some w \<Rightarrow> slotsAre h a m \<and> winnerConsistent m))"

text \<open>
  A valid bracket, relative to the playoff rules: a decided wild card matchup has the
  teams of the fresh bracket of the same owner; a decided divisional matchup has the
  teams that the rules compute from the three wild card winners; a decided championship
  those computed from the two divisional winners; a decided Super Bowl the two conference
  champions.  The winner of an absent or undecided matchup is absent.  Nothing is asked
  of a matchup without a winner, of the completion flag or of the names: the fresh bracket
  and a bracket whose championship or Super Bowl is \<^verbatim>\<open>null\<close> are valid.
\<close>

definition wildCardWinners :: "conference_bracket \<Rightarrow> team option list" where
  "wildCardWinners S =
     [winnerOf (at_index (wildCard S) 0), winnerOf (at_index (wildCard S) 1),
      winnerOf (at_index (wildCard S) 2)]"

definition divisionalWinners :: "conference_bracket \<Rightarrow> team option list" where
  "divisionalWinners S =
     [winnerOf (at_index (divisional S) 0), winnerOf (at_index (divisional S) 1)]"

definition validConference ::
    "playoff_rules \<Rightarrow> conference \<Rightarrow> conference_bracket \<Rightarrow> conference_bracket \<Rightarrow> bool" where
  "validConference rules c F S =
     (matchupValid (homeTeam (wildCard F ! 0)) (awayTeam (wildCard F ! 0)) (at_index (wildCard S) 0)
      \<and> matchupValid (homeTeam (wildCard F ! 1)) (awayTeam (wildCard F ! 1)) (at_index (wildCard S) 1)
      \<and> matchupValid (homeTeam (wildCard F ! 2)) (awayTeam (wildCard F ! 2)) (at_index (wildCard S) 2)
      \<and> (let d = calculateDivisionalMatchupsFn rules c (wildCardWinners S) in
            matchupValid (home (matchup1 d)) (away (matchup1 d)) (at_index (divisional S) 0)
            \<and> matchupValid (home (matchup2 d)) (away (matchup2 d)) (at_index (divisional S) 1))
      \<and> (let p = calculateChampionshipMatchupFn rules (divisionalWinners S) in
            matchupValid (home p) (away p) (championship S)))"

definition validBracket :: "playoff_rules \<Rightarrow> bracket_state \<Rightarrow> bool" where
  "validBracket rules S =
     (let F = createInitialBracketFn rules (userName S) in
      validConference rules AFC (afc F) (afc S)
      \<and> validConference rules NFC (nfc F) (nfc S)
      \<and> matchupValid (winnerOf (championship (afc S))) (winnerOf (championship (nfc S)))
            (superBowl S))"

text \<open>
  Two matchups with the same teams in the slots and the same winner; and a matchup that
  agrees with an optional one: the same winner, the same winner code and, when the
  optional matchup is decided, the same game.
\<close>

definition sameGame :: "matchup \<Rightarrow> matchup \<Rightarrow> bool" where
  "sameGame x m = (homeTeam x = homeTeam m \<and> awayTeam x = awayTeam m \<and> winner x = winner m)"

definition agrees :: "matchup \<Rightarrow> matchup option \<Rightarrow> bool" where
  "agrees x mo =
     (winner x = winnerOf mo \<and> getWinnerCode (Some x) = getWinnerCode mo
      \<and> (case mo of None \<Rightarrow> True | Some m \<Rightarrow> winner m \<noteq> None \<longrightarrow> sameGame x m))"

section \<open>Sample data\<close>

text \<open>A seeding table and matchups on which the theorems below are instantiated.\<close>

definition sampleSeeds :: seeding where
  "sampleSeeds c n =
     \<lparr>team_id = conferencePrefix c @ ''-'' @ [char_of (48 + n)], team_conference = c, seed = n,
      team_name = ''Team'', city = ''City''\<rparr>"

definition sampleDecided :: matchup where
  "sampleDecided =
     \<lparr>matchup_id = Some ''afc-wc-1'', homeTeam = Some (sampleSeeds AFC 2),
      awayTeam = Some (sampleSeeds AFC 7), winner = Some (sampleSeeds AFC 7)\<rparr>"

definition sampleSuperBowlOnly :: bracket_state where
  "sampleSuperBowlOnly =
     (createInitialBracket sampleSeeds ''Sam'')
       \<lparr>superBowl := Some \<lparr>matchup_id = Some ''super-bowl'', homeTeam = Some (sampleSeeds AFC 1),
            awayTeam = Some (sampleSeeds NFC 1), winner = Some (sampleSeeds AFC 1)\<rparr>\<rparr>"

definition sampleRules :: playoff_rules where
  "sampleRules = playoffRules sampleSeeds"

definition sampleCodes :: "nat list" where
  "sampleCodes = [1, 2, 1, 1, 1, 2, 1, 2, 1, 1, 2, 1, 2]"

definition sampleNullCodes :: "nat list" where
  "sampleNullCodes = [0, 0, 0, 0, 0, 0, 2, 0, 0, 0, 0, 0, 1]"

definition sampleBracket :: bracket_state where
  "sampleBracket =
     (case applyPicksToFreshBracket sampleRules sampleCodes ''Sam'' of
        Inr B \<Rightarrow> B
      | Inl e \<Rightarrow> createInitialBracket sampleSeeds ''Sam'')"

definition sampleFresh :: bracket_state where
  "sampleFresh = createInitialBracket sampleSeeds ''Sam''"

definition sampleNullBracket :: bracket_state where
  "sampleNullBracket =
     sampleFresh
       \<lparr>afc := (afc sampleFresh)
          \<lparr>wildCard :=
             [(wildCard (afc sampleFresh) ! 0)\<lparr>winner := Some (sampleSeeds AFC 7)\<rparr>,
              wildCard (afc sampleFresh) ! 1, wildCard (afc sampleFresh) ! 2],
           championship := None\<rparr>,
        nfc := (nfc sampleFresh)\<lparr>championship := None\<rparr>,
        superBowl := None\<rparr>"

section \<open>The winner code of a matchup\<close>

text \<open>
  Claim C3.  The winner code of a matchup is 0 when the winner is absent, 1 when the
  winner's id is the id of the home team, 2 when it is the id of the away team (and not
  that of the home team, which is tested first), and 0 when a winner is recorded that has
  the id of neither team.  The derivation is a total function with values 0, 1 and 2: it
  has no failing branch, for an absent matchup as well.
\<close>

theorem getWinnerCode_derivation:
  "getWinnerCode None = 0
   \<and> (winner m = None \<longrightarrow> getWinnerCode (Some m) = 0)
   \<and> (\<forall>w h. winner m = Some w \<and> homeTeam m = Some h \<and> team_id w = team_id h
         \<longrightarrow> getWinnerCode (Some m) = 1)
   \<and> (\<forall>w a. winner m = Some w \<and> awayTeam m = Some a \<and> team_id w = team_id a
         \<and> (\<forall>h. homeTeam m = Some h \<longrightarrow> team_id w \<noteq> team_id h)
         \<longrightarrow> getWinnerCode (Some m) = 2)
   \<and> (\<forall>w. winner m = Some w
         \<and> (\<forall>h. homeTeam m = Some h \<longrightarrow> team_id w \<noteq> team_id h)
         \<and> (\<forall>a. awayTeam m = Some a \<longrightarrow> team_id w \<noteq> team_id a)
         \<longrightarrow> getWinnerCode (Some m) = 0)
   \<and> getWinnerCode (Some m) \<le> 2"
  by (auto simp: getWinnerCode_def split: option.splits)

theorem getWinnerCode_derivation_witness:
  "winner sampleDecided = Some (sampleSeeds AFC 7)
   \<and> awayTeam sampleDecided = Some (sampleSeeds AFC 7)
   \<and> homeTeam sampleDecided = Some (sampleSeeds AFC 2)
   \<and> team_id (sampleSeeds AFC 7) \<noteq> team_id (sampleSeeds AFC 2)
   \<and> getWinnerCode (Some sampleDecided) = 2"
proof -
  have w: "winner sampleDecided = Some (sampleSeeds AFC 7)"
    and a: "awayTeam sampleDecided = Some (sampleSeeds AFC 7)"
    and h: "homeTeam sampleDecided = Some (sampleSeeds AFC 2)"
    by (simp_all add: sampleDecided_def)
  have ne: "team_id (sampleSeeds AFC 7) \<noteq> team_id (sampleSeeds AFC 2)"
    by (simp add: sampleSeeds_def)
  from getWinnerCode_derivation [of sampleDecided] w a h ne
  have "getWinnerCode (Some sampleDecided) = 2"
    by auto
  with w a h ne show ?thesis by simp
qed

section \<open>Bits of the packed value\<close>

lemma not_bit_code: "c < 4 \<Longrightarrow> 2 \<le> k \<Longrightarrow> \<not> bit (c::nat) k"
proof -
  assume c: "c < 4" and k: "2 \<le> k"
  have "(2::nat) ^ 2 \<le> 2 ^ k" using k by (rule power_increasing) simp
  then have "c < 2 ^ k" using c by simp
  then show ?thesis by (simp add: bit_iff_odd)
qed

lemma bit_code_word:
  "c < 4 \<Longrightarrow> bit (push_bit (2 * i) (of_nat c :: 32 word)) n \<longleftrightarrow>
     n < 32 \<and> n div 2 = i \<and> bit c (n mod 2)"
proof (cases "2 * i \<le> n \<and> n - 2 * i < 2")
  case True
  assume "c < 4"
  from True have "n div 2 = i" "n mod 2 = n - 2 * i" by presburger+
  with True show ?thesis by (auto simp: bit_simps)
next
  case False
  assume c: "c < 4"
  from False have ni: "n div 2 \<noteq> i" by presburger
  from False c have "2 * i \<le> n \<Longrightarrow> \<not> bit c (n - 2 * i)"
    by (intro not_bit_code) auto
  with ni show ?thesis by (auto simp: bit_simps)
qed

lemma bit_packLoop:
  "\<lbrakk>\<forall>c\<in>set cs. c < 4; i + length cs \<le> 16\<rbrakk> \<Longrightarrow>
   bit (packLoop cs i p) n \<longleftrightarrow>
     bit p n \<or> (n < 32 \<and> i \<le> n div 2 \<and> n div 2 - i < length cs \<and> bit (cs ! (n div 2 - i)) (n mod 2))"
proof (induction cs arbitrary: i p)
  case Nil
  then show ?case by simp
next
  case (Cons c cs)
  have i: "(i * 2) mod 32 = 2 * i" using Cons.prems by simp
  have c: "c < 4" using Cons.prems by simp
  have IH: "bit (packLoop cs (Suc i) q) n \<longleftrightarrow>
     bit q n \<or> (n < 32 \<and> Suc i \<le> n div 2 \<and> n div 2 - Suc i < length cs \<and> bit (cs ! (n div 2 - Suc i)) (n mod 2))" for q
    using Cons.prems Cons.IH [of "Suc i" q] by auto
  show ?case
  proof (cases "n div 2 = i")
    case True
    then show ?thesis
      by (simp add: IH i bit_or_iff bit_code_word [OF c])
  next
    case False
    then have "i \<le> n div 2 \<longleftrightarrow> Suc i \<le> n div 2" by auto
    moreover have "Suc i \<le> n div 2 \<Longrightarrow> (c # cs) ! (n div 2 - i) = cs ! (n div 2 - Suc i)"
      by (simp add: nth_Cons') 
    moreover have "Suc i \<le> n div 2 \<Longrightarrow> n div 2 - i < length (c # cs) \<longleftrightarrow> n div 2 - Suc i < length cs"
      by auto
    ultimately show ?thesis using False
      by (auto simp add: IH i bit_or_iff bit_code_word [OF c])
  qed
qed

lemma bit_packCodes:
  "\<lbrakk>\<forall>c\<in>set cs. c < 4; length cs \<le> 16\<rbrakk> \<Longrightarrow>
   bit (packCodes cs) n \<longleftrightarrow> n < 32 \<and> n div 2 < length cs \<and> bit (cs ! (n div 2)) (n mod 2)"
  unfolding packCodes_def by (subst bit_packLoop) auto

lemma mask_ff: "(0xff :: 32 word) = mask 8"
  by (simp add: mask_eq_exp_minus_1)

lemma mask_3: "(0x03 :: 32 word) = mask 2"
  by (simp add: mask_eq_exp_minus_1)

lemma byte_of_packed:
  "k \<le> 24 \<Longrightarrow> (ucast (signed_drop_bit k P AND 0xff) :: 8 word) = ucast (drop_bit k (P :: 32 word))"
  unfolding mask_ff
  by (rule bit_word_eqI) (auto simp: bit_simps)

lemma packedBytes_drop_bit:
  "packedBytes P = [ucast P, ucast (drop_bit 8 P), ucast (drop_bit 16 P), ucast (drop_bit 24 P)]"
  using byte_of_packed [of 0 P] byte_of_packed [of 8 P] byte_of_packed [of 16 P] byte_of_packed [of 24 P]
  by (simp add: packedBytes_def)

lemma code_of_packed:
  "k \<le> 24 \<Longrightarrow> signed_drop_bit k P AND 0x03 = take_bit 2 (drop_bit k (P :: 32 word))"
  unfolding mask_3
  by (rule bit_word_eqI) (auto simp: bit_simps)

lemma unpackBytes_packedBytes: "unpackBytes (packedBytes P) = P"
proof (rule bit_word_eqI)
  fix n assume n: "n < LENGTH(32)"
  then consider "n < 8" | "8 \<le> n" "n < 16" | "16 \<le> n" "n < 24" | "24 \<le> n" "n < 32"
    by fastforce
  then show "bit (unpackBytes (packedBytes P)) n = bit P n"
    by cases (auto simp: packedBytes_drop_bit unpackBytes_def byteAt_def bit_simps)
qed


section \<open>Base64 round trip of four bytes\<close>

declare restorePadding.simps [simp del]

lemma restorePadding_0: "length s mod 4 = 0 \<Longrightarrow> restorePadding s = s"
  by (subst restorePadding.simps) simp

lemma restorePadding_3: "length s mod 4 = 3 \<Longrightarrow> restorePadding s = s @ ''=''"
  by (subst restorePadding.simps) (simp add: restorePadding_0 mod_Suc)

lemma restorePadding_2: "length s mod 4 = 2 \<Longrightarrow> restorePadding s = s @ ''==''"
  by (subst restorePadding.simps) (simp add: restorePadding_3 mod_Suc)

lemma restorePadding_1: "length s mod 4 = 1 \<Longrightarrow> restorePadding s = s @ ''===''"
  by (subst restorePadding.simps) (simp add: restorePadding_2 mod_Suc)

lemma replaceAll_toUrlSafe:
  "replaceAll (CHR ''/'') (CHR ''_'') (replaceAll (CHR ''+'') (CHR ''-'') s) = map toUrlSafe s"
  by (simp add: replaceAll_def toUrlSafe_def)

lemma replaceAll_fromUrlSafe:
  "replaceAll (CHR ''_'') (CHR ''/'') (replaceAll (CHR ''-'') (CHR ''+'') s) = map fromUrlSafe s"
  by (simp add: replaceAll_def fromUrlSafe_def)

lemma char_eq_code: "(c = d) = ((of_char c :: nat) = of_char d)"
  by simp

lemma code_b64char:
  "s < 64 \<Longrightarrow> (of_char (b64char s) :: nat) =
     (if s < 26 then 65 + s else if s < 52 then 71 + s else if s < 62 then s - 4
      else if s = 62 then 43 else 47)"
  by (simp add: b64char_def)

lemma from_to_b64char: "s < 64 \<Longrightarrow> fromUrlSafe (toUrlSafe (b64char s)) = b64char s"
  by (auto simp add: fromUrlSafe_def toUrlSafe_def char_eq_code code_b64char)

lemma toUrl_not_eq: "s < 64 \<Longrightarrow> toUrlSafe (b64char s) \<noteq> CHR ''=''"
  by (auto simp add: toUrlSafe_def char_eq_code code_b64char)

lemma b64char_not_eq: "s < 64 \<Longrightarrow> b64char s \<noteq> CHR ''=''"
  by (auto simp add: char_eq_code code_b64char)

lemma b64char_not_ws: "s < 64 \<Longrightarrow> \<not> isAsciiWhitespace (b64char s)"
  by (auto simp add: isAsciiWhitespace_def code_b64char)

lemma b64index_b64char: "s < 64 \<Longrightarrow> b64index (b64char s) = Some s"
  by (auto simp add: b64index_def Let_def code_b64char)


lemma unat_byte: "unat (a :: 8 word) < 256"
  using unsigned_less [of a, where ?'a = nat] by simp

lemma sextets4_lt: "s \<in> set (sextets4 a b c d) \<Longrightarrow> s < 64"
  using unat_byte [of a] unat_byte [of b] unat_byte [of c] unat_byte [of d]
  by (auto simp: sextets4_def)

lemma sextetsToBytes_sextets4: "sextetsToBytes (sextets4 a b c d) = [a, b, c, d]"
proof -
  have b: "unat b div 16 < 16" and c: "unat c div 64 < 4"
    using unat_byte [of b] unat_byte [of c] by auto
  have 1: "unat a div 4 * 4 + (unat a mod 4 * 16 + unat b div 16) div 16 = unat a"
    using b by simp
  have 2: "(unat a mod 4 * 16 + unat b div 16) mod 16 * 16 + (unat b mod 16 * 4 + unat c div 64) div 4 = unat b"
    using b c by simp
  have 3: "(unat b mod 16 * 4 + unat c div 64) mod 4 * 64 + unat c mod 64 = unat c"
    using c by simp
  have 4: "unat d div 4 * 4 + unat d mod 4 * 16 div 16 = unat d"
    by simp
  have "sextetsToBytes (sextets4 a b c d) =
      [of_nat (unat a div 4 * 4 + (unat a mod 4 * 16 + unat b div 16) div 16),
       of_nat ((unat a mod 4 * 16 + unat b div 16) mod 16 * 16 + (unat b mod 16 * 4 + unat c div 64) div 4),
       of_nat ((unat b mod 16 * 4 + unat c div 64) mod 4 * 64 + unat c mod 64),
       of_nat (unat d div 4 * 4 + unat d mod 4 * 16 div 16)]"
    unfolding sextets4_def sextetsToBytes.simps append.simps ..
  also have "\<dots> = [a, b, c, d]"
    unfolding 1 2 3 4 by simp
  finally show ?thesis .
qed


lemma btoa_four:
  "btoa [a, b, c, d] = map b64char (sextets4 a b c d) @ ''==''"
  by (simp add: sextets4_def)

lemma encodeBytes_four: "encodeBytes [a, b, c, d] = map (toUrlSafe \<circ> b64char) (sextets4 a b c d)"
proof -
  have "(unat d mod 4) * 16 < 64" by (rule sextets4_lt [of _ a b c d]) (simp add: sextets4_def)
  then have "toUrlSafe (b64char ((unat d mod 4) * 16)) \<noteq> CHR ''=''"
    by (rule toUrl_not_eq)
  moreover have "toUrlSafe (CHR ''='') = CHR ''=''"
    by (simp add: toUrlSafe_def)
  ultimately show ?thesis
    by (simp add: encodeBytes_def replaceAll_toUrlSafe btoa_four stripTrailingEquals_def sextets4_def)
qed


lemma atob_padded:
  assumes "length ss mod 4 = 2" "\<forall>s\<in>set ss. s < 64"
  shows "atob (map b64char ss @ ''=='') = Inr (sextetsToBytes ss)"
proof -
  let ?d = "map b64char ss"
  have ws: "filter (\<lambda>c. \<not> isAsciiWhitespace c) (?d @ ''=='') = ?d @ ''=='' "
  proof -
    have "\<not> isAsciiWhitespace (CHR ''='')" by (simp add: isAsciiWhitespace_def)
    moreover have "\<forall>c\<in>set ?d. \<not> isAsciiWhitespace c"
      using assms(2) by (auto simp: b64char_not_ws)
    ultimately show ?thesis by (simp add: filter_id_conv)
  qed
  have len: "length (?d @ ''=='') mod 4 = 0"
    using assms(1) by (simp add: mod_Suc)
  have rp: "removePadding (?d @ ''=='') = ?d"
    using len by (simp add: removePadding_def butlast_append)
  have idx: "those (map b64index ?d) = Some ss"
    using assms(2) by (induction ss) (simp_all add: b64index_b64char)
  have "length ?d mod 4 \<noteq> 1"
    using assms(1) by simp
  then show ?thesis
    unfolding atob_def ws rp Let_def idx by simp
qed


lemma decode_encodeBytes:
  "decodeBracketPicks (encodeBytes [a, b, c, d]) = Inr (extractCodes (unpackBytes [a, b, c, d]))"
proof -
  let ?ss = "sextets4 a b c d"
  have lt: "\<forall>s\<in>set ?ss. s < 64" by (auto dest: sextets4_lt)
  have inv: "map fromUrlSafe (map (toUrlSafe \<circ> b64char) ?ss) = map b64char ?ss"
    using lt by (simp add: from_to_b64char)
  have len: "length ?ss mod 4 = 2" by (simp add: sextets4_def)
  then have "length (map b64char ?ss) mod 4 = 2" by simp
  then have pad: "restorePadding (map b64char ?ss) = map b64char ?ss @ ''==''"
    by (rule restorePadding_2)
  have "atob (map b64char ?ss @ ''=='') = Inr (sextetsToBytes ?ss)"
    using len lt by (rule atob_padded)
  then have "atob (restorePadding (map b64char ?ss)) = Inr [a, b, c, d]"
    unfolding pad sextetsToBytes_sextets4 .
  then show ?thesis
    unfolding decodeBracketPicks_def encodeBytes_four replaceAll_fromUrlSafe inv Let_def
    by simp
qed


section \<open>Decoding an encoded bracket\<close>

lemma getWinnerCode_le: "getWinnerCode mo \<le> 2"
  by (auto simp: getWinnerCode_def split: option.splits)

lemma bracketCodes_length: "length (bracketCodes b) = 13"
  by (simp add: bracketCodes_def getAllMatchupsOrdered_def)

lemma bracketCodes_lt: "c \<in> set (bracketCodes b) \<Longrightarrow> c < 4"
proof -
  assume "c \<in> set (bracketCodes b)"
  then obtain mo where "c = getWinnerCode mo"
    by (auto simp: bracketCodes_def)
  then show "c < 4"
    using getWinnerCode_le [of mo] by simp
qed

lemma unat_code: "c < 4 \<Longrightarrow> unat (of_nat c :: 32 word) = c"
  by (simp add: unat_of_nat)

lemma take_drop_packCodes:
  assumes "\<forall>c\<in>set cs. c < 4" "length cs \<le> 13" "i < length cs"
  shows "take_bit 2 (drop_bit (2 * i) (packCodes cs)) = of_nat (cs ! i)"
proof (rule bit_word_eqI)
  fix n assume "n < LENGTH(32)"
  have c: "cs ! i < 4" using assms by simp
  show "bit (take_bit 2 (drop_bit (2 * i) (packCodes cs))) n = bit (of_nat (cs ! i) :: 32 word) n"
  proof (cases "n < 2")
    case True
    then have "(2 * i + n) div 2 = i" "(2 * i + n) mod 2 = n" by auto
    moreover have "2 * i + n < 32" using assms True by simp
    ultimately show ?thesis
      using assms True by (simp add: bit_simps bit_packCodes)
  next
    case False
    then have "\<not> bit (cs ! i) n" using c by (intro not_bit_code) auto
    with False show ?thesis by (simp add: bit_simps)
  qed
qed

lemma extractCodes_packCodes:
  assumes "\<forall>c\<in>set cs. c < 4" "length cs = 13"
  shows "extractCodes (packCodes cs) = cs"
proof (rule nth_equalityI)
  show "length (extractCodes (packCodes cs)) = length cs"
    using assms by (simp add: extractCodes_def)
next
  fix i assume "i < length (extractCodes (packCodes cs))"
  then have i: "i < 13" by (simp add: extractCodes_def)
  then have k: "i * 2 \<le> 24" by simp
  have "extractCodes (packCodes cs) ! i = unat (signed_drop_bit (i * 2) (packCodes cs) AND 0x03)"
    using i by (simp add: extractCodes_def)
  also have "\<dots> = unat (take_bit 2 (drop_bit (2 * i) (packCodes cs)))"
    using code_of_packed [OF k] by (simp add: mult.commute)
  also have "\<dots> = unat (of_nat (cs ! i) :: 32 word)"
    using assms i by (simp add: take_drop_packCodes)
  also have "\<dots> = cs ! i"
    using assms i by (intro unat_code) auto
  finally show "extractCodes (packCodes cs) ! i = cs ! i" .
qed

lemma decode_encode:
  "decodeBracketPicks (encodeBracketPicks b) = Inr (bracketCodes b)"
proof -
  have "decodeBracketPicks (encodeBracketPicks b) =
      Inr (extractCodes (unpackBytes (packedBytes (bracketPacked b))))"
    unfolding encodeBracketPicks_def bracketBytes_def packedBytes_drop_bit
    by (rule decode_encodeBytes)
  also have "\<dots> = Inr (bracketCodes b)"
    unfolding unpackBytes_packedBytes bracketPacked_def
    using bracketCodes_lt [of _ b] bracketCodes_length [of b]
    by (simp add: extractCodes_packCodes)
  finally show ?thesis .
qed

lemma bracketCodes_explicit:
  "bracketCodes b =
     [getWinnerCode (at_index (wildCard (afc b)) 0),
      getWinnerCode (at_index (wildCard (afc b)) 1),
      getWinnerCode (at_index (wildCard (afc b)) 2),
      getWinnerCode (at_index (wildCard (nfc b)) 0),
      getWinnerCode (at_index (wildCard (nfc b)) 1),
      getWinnerCode (at_index (wildCard (nfc b)) 2),
      getWinnerCode (at_index (divisional (afc b)) 0),
      getWinnerCode (at_index (divisional (afc b)) 1),
      getWinnerCode (at_index (divisional (nfc b)) 0),
      getWinnerCode (at_index (divisional (nfc b)) 1),
      getWinnerCode (championship (afc b)),
      getWinnerCode (championship (nfc b)),
      getWinnerCode (superBowl b)]"
  by (simp add: bracketCodes_def getAllMatchupsOrdered_def)

lemma bit_bracketPacked:
  "bit (bracketPacked b) n \<longleftrightarrow> n < 26 \<and> bit (bracketCodes b ! (n div 2)) (n mod 2)"
proof -
  have "bit (bracketPacked b) n \<longleftrightarrow>
      n < 32 \<and> n div 2 < 13 \<and> bit (bracketCodes b ! (n div 2)) (n mod 2)"
    unfolding bracketPacked_def
    using bracketCodes_lt [of _ b] bracketCodes_length [of b]
    by (subst bit_packCodes) auto
  moreover have "n < 32 \<and> n div 2 < 13 \<longleftrightarrow> n < 26" by auto
  ultimately show ?thesis by blast
qed

lemma bit_bracketBytes:
  "k < 4 \<Longrightarrow> n < 8 \<Longrightarrow> bit (bracketBytes b ! k) n = bit (bracketPacked b) (8 * k + n)"
proof -
  assume "k < 4" and n: "n < 8"
  then consider "k = 0" | "k = 1" | "k = 2" | "k = 3" by linarith
  then show ?thesis
    using n by cases (simp_all add: bracketBytes_def packedBytes_drop_bit bit_simps)
qed

section \<open>The layout of the packed value\<close>

text \<open>
  Claim C2.  For every bracket the 13 winner codes are taken in the fixed order: AFC
  wild card 1 to 3, NFC wild card 1 to 3, AFC divisional 1 and 2, NFC divisional 1 and 2,
  AFC championship, NFC championship, Super Bowl.  Code \<open>i\<close> occupies the bits \<open>2 * i\<close> and
  \<open>2 * i + 1\<close> of the 32-bit value (its low bit at \<open>2 * i\<close>), the bits from 26 on are 0,
  and byte \<open>k\<close> of the four bytes holds the bits \<open>8 * k\<close> to \<open>8 * k + 7\<close>: byte 0 the
  bits 0 to 7.  The token is the rendering of these four bytes.
\<close>

theorem encode_packs_little_endian:
  "bracketCodes b =
     [getWinnerCode (at_index (wildCard (afc b)) 0),
      getWinnerCode (at_index (wildCard (afc b)) 1),
      getWinnerCode (at_index (wildCard (afc b)) 2),
      getWinnerCode (at_index (wildCard (nfc b)) 0),
      getWinnerCode (at_index (wildCard (nfc b)) 1),
      getWinnerCode (at_index (wildCard (nfc b)) 2),
      getWinnerCode (at_index (divisional (afc b)) 0),
      getWinnerCode (at_index (divisional (afc b)) 1),
      getWinnerCode (at_index (divisional (nfc b)) 0),
      getWinnerCode (at_index (divisional (nfc b)) 1),
      getWinnerCode (championship (afc b)),
      getWinnerCode (championship (nfc b)),
      getWinnerCode (superBowl b)]
   \<and> (\<forall>i<13. bit (bracketPacked b) (i * 2) = bit (bracketCodes b ! i) 0
             \<and> bit (bracketPacked b) (i * 2 + 1) = bit (bracketCodes b ! i) 1
             \<and> bracketCodes b ! i \<le> 2)
   \<and> (\<forall>n\<ge>26. \<not> bit (bracketPacked b) n)
   \<and> length (bracketBytes b) = 4
   \<and> (\<forall>k<4. \<forall>n<8. bit (bracketBytes b ! k) n = bit (bracketPacked b) (8 * k + n))
   \<and> encodeBracketPicks b = encodeBytes (bracketBytes b)"
proof (intro conjI allI impI)
  show "bracketCodes b = [getWinnerCode (at_index (wildCard (afc b)) 0),
      getWinnerCode (at_index (wildCard (afc b)) 1),
      getWinnerCode (at_index (wildCard (afc b)) 2),
      getWinnerCode (at_index (wildCard (nfc b)) 0),
      getWinnerCode (at_index (wildCard (nfc b)) 1),
      getWinnerCode (at_index (wildCard (nfc b)) 2),
      getWinnerCode (at_index (divisional (afc b)) 0),
      getWinnerCode (at_index (divisional (afc b)) 1),
      getWinnerCode (at_index (divisional (nfc b)) 0),
      getWinnerCode (at_index (divisional (nfc b)) 1),
      getWinnerCode (championship (afc b)),
      getWinnerCode (championship (nfc b)),
      getWinnerCode (superBowl b)]"
    by (rule bracketCodes_explicit)
next
  fix i :: nat assume i: "i < 13"
  then show "bit (bracketPacked b) (i * 2) = bit (bracketCodes b ! i) 0"
    by (simp add: bit_bracketPacked)
  have "(i * 2 + 1) div 2 = i" "(i * 2 + 1) mod 2 = 1" "i * 2 + 1 < 26 \<longleftrightarrow> i < 13"
    by presburger+
  with i show "bit (bracketPacked b) (i * 2 + 1) = bit (bracketCodes b ! i) 1"
    by (simp only: bit_bracketPacked simp_thms)
  from i have "bracketCodes b ! i \<in> set (bracketCodes b)"
    by (simp add: bracketCodes_length)
  then obtain mo where "bracketCodes b ! i = getWinnerCode mo"
    by (auto simp: bracketCodes_def)
  then show "bracketCodes b ! i \<le> 2"
    by (simp add: getWinnerCode_le)
next
  fix n :: nat assume "26 \<le> n"
  then show "\<not> bit (bracketPacked b) n"
    by (simp add: bit_bracketPacked)
next
  show "length (bracketBytes b) = 4"
    by (simp add: bracketBytes_def packedBytes_def)
next
  fix k n :: nat assume "k < 4" "n < 8"
  then show "bit (bracketBytes b ! k) n = bit (bracketPacked b) (8 * k + n)"
    by (rule bit_bracketBytes)
next
  show "encodeBracketPicks b = encodeBytes (bracketBytes b)"
    by (simp add: encodeBracketPicks_def)
qed

lemma sample_codes: "bracketCodes sampleSuperBowlOnly = [0,0,0,0,0,0,0,0,0,0,0,0,1]"
  by (simp add: bracketCodes_explicit sampleSuperBowlOnly_def createInitialBracket_def
      initialConference_def at_index_def getWinnerCode_def seededMatchup_def emptyMatchup_def)

theorem encode_packs_little_endian_witness:
  "bracketCodes sampleSuperBowlOnly ! 12 = 1
   \<and> bit (bracketPacked sampleSuperBowlOnly) 24
   \<and> \<not> bit (bracketPacked sampleSuperBowlOnly) 25
   \<and> \<not> bit (bracketPacked sampleSuperBowlOnly) 26
   \<and> bit (bracketBytes sampleSuperBowlOnly ! 3) 0"
proof -
  note t = encode_packs_little_endian [of sampleSuperBowlOnly]
  have c: "bracketCodes sampleSuperBowlOnly ! 12 = 1"
    by (simp add: sample_codes)
  from t have "\<forall>i<13. bit (bracketPacked sampleSuperBowlOnly) (i * 2) = bit (bracketCodes sampleSuperBowlOnly ! i) 0
             \<and> bit (bracketPacked sampleSuperBowlOnly) (i * 2 + 1) = bit (bracketCodes sampleSuperBowlOnly ! i) 1
             \<and> bracketCodes sampleSuperBowlOnly ! i \<le> 2"
    by (elim conjE)
  from this [rule_format, of 12]
  have "bit (bracketPacked sampleSuperBowlOnly) (12 * 2) = bit (bracketCodes sampleSuperBowlOnly ! 12) 0"
    and "bit (bracketPacked sampleSuperBowlOnly) (12 * 2 + 1) = bit (bracketCodes sampleSuperBowlOnly ! 12) 1"
    by simp_all
  then have b24: "bit (bracketPacked sampleSuperBowlOnly) 24" and b25: "\<not> bit (bracketPacked sampleSuperBowlOnly) 25"
    by (simp_all add: c bit_Suc_0_iff)
  from t have "\<forall>n\<ge>26. \<not> bit (bracketPacked sampleSuperBowlOnly) n"
    by (elim conjE)
  then have b26: "\<not> bit (bracketPacked sampleSuperBowlOnly) 26"
    by simp
  from t have "\<forall>k<4. \<forall>n<8. bit (bracketBytes sampleSuperBowlOnly ! k) n
      = bit (bracketPacked sampleSuperBowlOnly) (8 * k + n)"
    by (elim conjE)
  from this [rule_format, of 3 0]
  have "bit (bracketBytes sampleSuperBowlOnly ! 3) 0 = bit (bracketPacked sampleSuperBowlOnly) (8 * 3 + 0)"
    by simp
  with b24 have "bit (bracketBytes sampleSuperBowlOnly ! 3) 0" by simp
  with c b24 b25 b26 show ?thesis by simp
qed

section \<open>Only the Super Bowl decided\<close>

lemma undecided_code: "undecided mo \<Longrightarrow> getWinnerCode mo = 0"
  by (auto simp: undecided_def getWinnerCode_def split: option.splits)

lemma packCodes_superBowl_home: "packCodes [0,0,0,0,0,0,0,0,0,0,0,0,1] = 0x01000000"
  by (simp add: packCodes_def)

lemma packedBytes_superBowl_home: "packedBytes 0x01000000 = [0, 0, 0, 1]"
  by (simp add: packedBytes_drop_bit)

lemma encodeBytes_superBowl_home: "encodeBytes [0, 0, 0, 1] = ''AAAAAQ''"
  by code_simp

lemma bit_push_24: "bit (push_bit 24 (1::32 word)) n \<longleftrightarrow> n = 24"
  by (auto simp only: bit_push_bit_iff bit_1_iff possible_bit_word len_bit0 len_num1
      mult_numeral_1_right split: if_splits)

lemma superBowl_home_push: "(0x01000000 :: 32 word) = push_bit 24 1"
  by simp

lemma bit_superBowl_home: "bit (0x01000000 :: 32 word) n \<longleftrightarrow> n = 24"
  unfolding superBowl_home_push by (rule bit_push_24)

text \<open>
  Claim C9.  A bracket in which only the Super Bowl is decided, the home team being the
  winner, and every other matchup is undecided, packs to the value whose only set bit is
  bit 24 (the field of bits 24 and 25 holds the code 01): the bytes 0, 0, 0, 1.
\<close>

theorem superBowl_home_only_layout:
  assumes "\<forall>mo\<in>set (take 12 (getAllMatchupsOrdered b)). undecided mo"
    and "superBowl b = Some m" and "winner m = Some w" and "homeTeam m = Some h"
    and "team_id w = team_id h"
  shows "bracketPacked b = 0x01000000
    \<and> (\<forall>n. bit (bracketPacked b) n \<longleftrightarrow> n = 24)
    \<and> bracketBytes b = [0, 0, 0, 1]
    \<and> encodeBracketPicks b = ''AAAAAQ''"
proof -
  have sb: "getWinnerCode (superBowl b) = 1"
    using assms(2-5) by (simp add: getWinnerCode_def)
  have codes: "bracketCodes b = [0,0,0,0,0,0,0,0,0,0,0,0,1]"
    using assms(1) sb
    by (simp add: bracketCodes_def getAllMatchupsOrdered_def undecided_code)
  then have p: "bracketPacked b = 0x01000000"
    by (simp only: bracketPacked_def packCodes_superBowl_home)
  have bits: "bit (bracketPacked b) n \<longleftrightarrow> n = 24" for n
    unfolding p by (rule bit_superBowl_home)
  have bs: "bracketBytes b = [0, 0, 0, 1]"
    by (simp only: bracketBytes_def p packedBytes_superBowl_home)
  have "encodeBracketPicks b = ''AAAAAQ''"
    by (simp only: encodeBracketPicks_def bs encodeBytes_superBowl_home)
  with p bits bs show ?thesis by blast
qed

lemma sample_undecided:
  "\<forall>mo\<in>set (take 12 (getAllMatchupsOrdered sampleSuperBowlOnly)). undecided mo"
  by (simp add: getAllMatchupsOrdered_def sampleSuperBowlOnly_def createInitialBracket_def
      initialConference_def at_index_def undecided_def seededMatchup_def emptyMatchup_def)

theorem superBowl_home_only_layout_witness:
  "superBowl sampleSuperBowlOnly =
     Some \<lparr>matchup_id = Some ''super-bowl'', homeTeam = Some (sampleSeeds AFC 1),
        awayTeam = Some (sampleSeeds NFC 1), winner = Some (sampleSeeds AFC 1)\<rparr>
   \<and> bracketPacked sampleSuperBowlOnly = 0x01000000
   \<and> bit (bracketPacked sampleSuperBowlOnly) 24
   \<and> bracketBytes sampleSuperBowlOnly = [0, 0, 0, 1]
   \<and> encodeBracketPicks sampleSuperBowlOnly = ''AAAAAQ''"
proof -
  let ?m = "\<lparr>matchup_id = Some ''super-bowl'', homeTeam = Some (sampleSeeds AFC 1),
        awayTeam = Some (sampleSeeds NFC 1), winner = Some (sampleSeeds AFC 1)\<rparr>"
  have sb: "superBowl sampleSuperBowlOnly = Some ?m"
    by (simp add: sampleSuperBowlOnly_def)
  have "winner ?m = Some (sampleSeeds AFC 1)" "homeTeam ?m = Some (sampleSeeds AFC 1)"
    by simp_all
  with sample_undecided sb
  have "bracketPacked sampleSuperBowlOnly = 0x01000000
    \<and> (\<forall>n. bit (bracketPacked sampleSuperBowlOnly) n \<longleftrightarrow> n = 24)
    \<and> bracketBytes sampleSuperBowlOnly = [0, 0, 0, 1]
    \<and> encodeBracketPicks sampleSuperBowlOnly = ''AAAAAQ''"
    by (rule superBowl_home_only_layout) simp
  with sb show ?thesis by blast
qed

section \<open>The token\<close>

lemma isBase64UrlChar_toUrlSafe: "s < 64 \<Longrightarrow> isBase64UrlChar (toUrlSafe (b64char s))"
  by (auto simp add: isBase64UrlChar_def toUrlSafe_def char_eq_code code_b64char Let_def)

lemma bracketBytes_four:
  "\<exists>x y z u. bracketBytes b = [x, y, z, u]"
  by (simp add: bracketBytes_def packedBytes_def)

lemma encoded_form:
  "\<exists>ss. length ss = 6 \<and> (\<forall>s\<in>set ss. s < 64)
     \<and> encodeBracketPicks b = map (toUrlSafe \<circ> b64char) ss
     \<and> btoa (bracketBytes b) = map b64char ss @ ''==''"
proof -
  obtain x y z u where bs: "bracketBytes b = [x, y, z, u]"
    using bracketBytes_four by blast
  let ?ss = "sextets4 x y z u"
  have "length ?ss = 6" by (simp add: sextets4_def)
  moreover have "\<forall>s\<in>set ?ss. s < 64" by (auto dest: sextets4_lt)
  moreover have "encodeBracketPicks b = map (toUrlSafe \<circ> b64char) ?ss"
    by (simp only: encodeBracketPicks_def bs encodeBytes_four)
  moreover have "btoa (bracketBytes b) = map b64char ?ss @ ''==''"
    by (simp only: bs btoa_four)
  ultimately show ?thesis by blast
qed

text \<open>
  Claim C8.  For every bracket the output of \<^verbatim>\<open>encodeBracketPicks\<close> is the base64 rendering
  of the four packed bytes with \<^verbatim>\<open>+\<close> replaced by \<^verbatim>\<open>-\<close>, \<^verbatim>\<open>/\<close> by \<^verbatim>\<open>_\<close> and the
  trailing \<^verbatim>\<open>=\<close> stripped: the rendering is the token with the substitution undone,
  followed by the padding \<^verbatim>\<open>==\<close>.  The token has 6 characters, so at most 6, all of
  the base64url alphabet.
\<close>

theorem token_is_base64url:
  "encodeBracketPicks b =
     stripTrailingEquals (replaceAll (CHR ''/'') (CHR ''_'') (replaceAll (CHR ''+'') (CHR ''-'')
       (btoa (bracketBytes b))))
   \<and> length (bracketBytes b) = 4
   \<and> btoa (bracketBytes b) =
       replaceAll (CHR ''_'') (CHR ''/'') (replaceAll (CHR ''-'') (CHR ''+'') (encodeBracketPicks b)) @ ''==''
   \<and> length (encodeBracketPicks b) = 6
   \<and> length (encodeBracketPicks b) \<le> 6
   \<and> (\<forall>c\<in>set (encodeBracketPicks b). isBase64UrlChar c)"
proof -
  obtain ss where ss: "length ss = 6" "\<forall>s\<in>set ss. s < 64"
    and enc: "encodeBracketPicks b = map (toUrlSafe \<circ> b64char) ss"
    and raw: "btoa (bracketBytes b) = map b64char ss @ ''==''"
    using encoded_form by blast
  have 1: "encodeBracketPicks b =
     stripTrailingEquals (replaceAll (CHR ''/'') (CHR ''_'') (replaceAll (CHR ''+'') (CHR ''-'')
       (btoa (bracketBytes b))))"
    by (simp only: encodeBracketPicks_def encodeBytes_def)
  have 2: "length (bracketBytes b) = 4"
    by (simp add: bracketBytes_def packedBytes_def)
  have "map fromUrlSafe (map (toUrlSafe \<circ> b64char) ss) = map b64char ss"
    using ss(2) by (simp add: from_to_b64char)
  then have 3: "btoa (bracketBytes b) =
       replaceAll (CHR ''_'') (CHR ''/'') (replaceAll (CHR ''-'') (CHR ''+'') (encodeBracketPicks b)) @ ''==''"
    by (simp only: replaceAll_fromUrlSafe enc raw)
  have 4: "length (encodeBracketPicks b) = 6"
    using ss(1) by (simp add: enc)
  have 5: "\<forall>c\<in>set (encodeBracketPicks b). isBase64UrlChar c"
    using ss(2) by (auto simp: enc isBase64UrlChar_toUrlSafe)
  from 4 have 6: "length (encodeBracketPicks b) \<le> 6" by simp
  from 1 2 3 4 6 5 show ?thesis by (intro conjI)
qed

theorem token_is_base64url_witness:
  "encodeBracketPicks sampleSuperBowlOnly = ''AAAAAQ''
   \<and> btoa (bracketBytes sampleSuperBowlOnly) = ''AAAAAQ==''
   \<and> isBase64UrlChar (CHR ''Q'')"
proof -
  have e: "encodeBracketPicks sampleSuperBowlOnly = ''AAAAAQ''"
    by (simp only: encodeBracketPicks_def bracketBytes_def bracketPacked_def sample_codes
        packCodes_superBowl_home packedBytes_superBowl_home encodeBytes_superBowl_home)
  from token_is_base64url [of sampleSuperBowlOnly]
  have "btoa (bracketBytes sampleSuperBowlOnly) =
       replaceAll (CHR ''_'') (CHR ''/'') (replaceAll (CHR ''-'') (CHR ''+'')
         (encodeBracketPicks sampleSuperBowlOnly)) @ ''==''"
    and "\<forall>c\<in>set (encodeBracketPicks sampleSuperBowlOnly). isBase64UrlChar c"
    by blast+
  then have "btoa (bracketBytes sampleSuperBowlOnly) = ''AAAAAQ==''" and "isBase64UrlChar (CHR ''Q'')"
    unfolding e by (simp_all add: replaceAll_def)
  with e show ?thesis by simp
qed

section \<open>Tokens that decode to fewer than four bytes\<close>

lemma decodeBracketPicks_padded:
  "decodeBracketPicks t =
     (case atob (paddedToken t) of Inl e \<Rightarrow> Inl e
      | Inr bytes \<Rightarrow> Inr (extractCodes (unpackBytes bytes)))"
  by (simp add: decodeBracketPicks_def paddedToken_def)

lemma bit_byteAt: "bit (push_bit (8 * k) (byteAt bs k)) n \<Longrightarrow> n < 8 * length bs"
proof -
  assume b: "bit (push_bit (8 * k) (byteAt bs k)) n"
  then have k: "k < length bs"
    by (auto simp: byteAt_def split: if_splits)
  from b have "n < 8 * k + 8"
    by (auto simp: byteAt_def bit_simps split: if_splits dest: bit_imp_le_length)
  with k show ?thesis by simp
qed

lemma bit_unpackBytes: "bit (unpackBytes bs) n \<Longrightarrow> n < 8 * length bs"
  unfolding unpackBytes_def bit_or_iff
  using bit_byteAt [of 0 bs n] bit_byteAt [of 1 bs n] bit_byteAt [of 2 bs n] bit_byteAt [of 3 bs n]
  by auto

lemma extractCodes_nth:
  "i < 13 \<Longrightarrow> extractCodes P ! i = unat (take_bit 2 (drop_bit (2 * i) P))"
proof -
  assume i: "i < 13"
  then have k: "i * 2 \<le> 24" by simp
  have "extractCodes P ! i = unat (signed_drop_bit (i * 2) P AND 0x03)"
    using i by (simp add: extractCodes_def)
  then show ?thesis
    using code_of_packed [OF k, of P] by (simp add: mult.commute)
qed

lemma extractCodes_le: "i < 13 \<Longrightarrow> extractCodes P ! i \<le> 3"
proof -
  assume i: "i < 13"
  have "unat (take_bit 2 (drop_bit (2 * i) P)) < 2 ^ 2"
    unfolding unsigned_take_bit_eq by (rule take_bit_nat_less_exp)
  with i show ?thesis by (simp add: extractCodes_nth)
qed

lemma extractCodes_beyond:
  assumes "i < 13" "8 * length bs \<le> 2 * i"
  shows "extractCodes (unpackBytes bs) ! i = 0"
proof -
  have "take_bit 2 (drop_bit (2 * i) (unpackBytes bs)) = 0"
  proof (rule bit_word_eqI)
    fix n assume "n < LENGTH(32)"
    have "\<not> bit (unpackBytes bs) (2 * i + n)"
      using bit_unpackBytes [of bs "2 * i + n"] assms(2) by auto
    then show "bit (take_bit 2 (drop_bit (2 * i) (unpackBytes bs))) n = bit (0 :: 32 word) n"
      by (simp add: bit_simps)
  qed
  with assms(1) show ?thesis by (simp add: extractCodes_nth)
qed

text \<open>
  Claim C10.  For every token (over the base64url alphabet or not) whose base64 decoding
  yields fewer than 4 bytes, \<^verbatim>\<open>decodeBracketPicks\<close> does not fail: it returns exactly 13
  codes, each of them 0, 1, 2 or 3, and every code whose bits lie beyond the decoded
  bytes is 0.
\<close>

theorem short_token_decodes:
  assumes "atob (paddedToken t) = Inr bytes" and "length bytes < 4"
  shows "\<exists>codes. decodeBracketPicks t = Inr codes \<and> length codes = 13
    \<and> (\<forall>i<13. codes ! i \<le> 3)
    \<and> (\<forall>i<13. 8 * length bytes \<le> 2 * i \<longrightarrow> codes ! i = 0)"
proof (intro exI conjI allI impI)
  show "decodeBracketPicks t = Inr (extractCodes (unpackBytes bytes))"
    using assms(1) by (simp add: decodeBracketPicks_padded)
  show "length (extractCodes (unpackBytes bytes)) = 13"
    by (simp add: extractCodes_def)
next
  fix i :: nat assume "i < 13"
  then show "extractCodes (unpackBytes bytes) ! i \<le> 3"
    by (rule extractCodes_le)
next
  fix i :: nat assume "i < 13" "8 * length bytes \<le> 2 * i"
  then show "extractCodes (unpackBytes bytes) ! i = 0"
    by (rule extractCodes_beyond)
qed

lemma atob_short_sample: "atob (paddedToken ''_w'') = Inr [255]"
  by code_simp

theorem short_token_decodes_witness:
  "atob (paddedToken ''_w'') = Inr [255]
   \<and> length [255 :: 8 word] < 4
   \<and> isBase64UrlChar (CHR ''_'') \<and> isBase64UrlChar (CHR ''w'')
   \<and> decodeBracketPicks ''_w'' = Inr [3, 3, 3, 3, 0, 0, 0, 0, 0, 0, 0, 0, 0]"
proof -
  have l: "length [255 :: 8 word] < 4" by simp
  from short_token_decodes [OF atob_short_sample l]
  obtain codes where "decodeBracketPicks ''_w'' = Inr codes" by blast
  moreover have "decodeBracketPicks ''_w'' = Inr [3, 3, 3, 3, 0, 0, 0, 0, 0, 0, 0, 0, 0]"
    by code_simp
  moreover have "isBase64UrlChar (CHR ''_'')" "isBase64UrlChar (CHR ''w'')"
    by (simp_all add: isBase64UrlChar_def)
  ultimately show ?thesis using atob_short_sample l by simp
qed

section \<open>When decoding fails\<close>

lemma plainChar_fromUrlSafe: "isBase64UrlChar c \<Longrightarrow> plainChar (fromUrlSafe c)"
  by (auto simp add: plainChar_def isBase64UrlChar_def fromUrlSafe_def b64index_def
      isAsciiWhitespace_def char_eq_code Let_def)

lemma b64index_equals: "b64index (CHR ''='') = None"
  by (simp add: b64index_def)

lemma not_ws_equals: "\<not> isAsciiWhitespace (CHR ''='')"
  by (simp add: isAsciiWhitespace_def)

lemma those_map_Some:
  "\<forall>x\<in>set xs. f x \<noteq> None \<Longrightarrow> \<exists>ys. those (map f xs) = Some ys"
  by (induction xs) auto

lemma those_map_None:
  "\<exists>x\<in>set xs. f x = None \<Longrightarrow> those (map f xs) = None"
  by (induction xs) (auto split: option.splits)

lemma atob_error_kind: "atob x = Inl e \<Longrightarrow> e = InvalidCharacterError"
  by (auto simp: atob_def Let_def split: if_splits option.splits)

lemma less4_cases:
  fixes m :: nat
  assumes "m < 4"
  obtains "m = 0" | "m = 1" | "m = 2" | "m = 3"
proof -
  from assms have "m = 0 \<or> m = 1 \<or> m = 2 \<or> m = 3" by auto
  then show thesis using that by blast
qed

lemma mod4_cases:
  fixes n :: nat
  obtains "n mod 4 = 0" | "n mod 4 = 1" | "n mod 4 = 2" | "n mod 4 = 3"
proof -
  have "n mod 4 < 4" by simp
  then show thesis
    by (rule less4_cases) (auto intro: that)
qed

lemma paddedToken_cases:
  shows "length t mod 4 = 0 \<Longrightarrow> paddedToken t = map fromUrlSafe t"
    and "length t mod 4 = 3 \<Longrightarrow> paddedToken t = map fromUrlSafe t @ ''=''"
    and "length t mod 4 = 2 \<Longrightarrow> paddedToken t = map fromUrlSafe t @ ''==''"
    and "length t mod 4 = 1 \<Longrightarrow> paddedToken t = map fromUrlSafe t @ ''===''"
  unfolding paddedToken_def replaceAll_fromUrlSafe
  using restorePadding_0 [of "map fromUrlSafe t"] restorePadding_3 [of "map fromUrlSafe t"]
    restorePadding_2 [of "map fromUrlSafe t"] restorePadding_1 [of "map fromUrlSafe t"]
  by simp_all

lemma filter_plain_pad:
  "\<forall>c\<in>set s. plainChar c \<Longrightarrow>
   filter (\<lambda>c. \<not> isAsciiWhitespace c) (s @ replicate k (CHR ''='')) = s @ replicate k (CHR ''='')"
  by (auto simp: filter_id_conv plainChar_def not_ws_equals)

lemma last_plain: "\<forall>c\<in>set s. plainChar c \<Longrightarrow> s \<noteq> [] \<Longrightarrow> last s \<noteq> CHR ''=''"
  using last_in_set [of s] by (auto simp: plainChar_def)

lemma removePadding_plain:
  assumes "\<forall>c\<in>set s. plainChar c"
  shows "removePadding s = s"
    and "length s mod 4 = 3 \<Longrightarrow> removePadding (s @ ''='') = s"
    and "length s mod 4 = 2 \<Longrightarrow> removePadding (s @ ''=='') = s"
    and "length s mod 4 = 1 \<Longrightarrow> removePadding (s @ ''==='') = s @ ''=''"
proof -
  have l: "s \<noteq> [] \<Longrightarrow> last s \<noteq> CHR ''=''"
    using assms by (rule last_plain)
  show "removePadding s = s"
    using l by (cases "s = []") (auto simp: removePadding_def)
  show "removePadding (s @ ''='') = s" if "length s mod 4 = 3"
  proof -
    from that have "s \<noteq> []" by auto
    with l that show ?thesis
      by (simp add: removePadding_def butlast_append mod_Suc)
  qed
  show "removePadding (s @ ''=='') = s" if "length s mod 4 = 2"
    using that by (simp add: removePadding_def butlast_append mod_Suc)
  show "removePadding (s @ ''==='') = s @ ''=''" if "length s mod 4 = 1"
    using that by (simp add: removePadding_def butlast_append mod_Suc)
qed

lemma atob_plain_sextets:
  assumes "\<forall>c\<in>set s. plainChar c" "length s mod 4 \<noteq> 1"
  shows "\<exists>bs. (case those (map b64index s) of None \<Rightarrow> Inl InvalidCharacterError
            | Some sextets \<Rightarrow> Inr (sextetsToBytes sextets)) = Inr bs"
proof -
  have "\<forall>c\<in>set s. b64index c \<noteq> None" using assms(1) by (simp add: plainChar_def)
  then obtain ys where "those (map b64index s) = Some ys"
    using those_map_Some by blast
  then show ?thesis by simp
qed

lemma atob_paddedToken_plain:
  assumes "\<forall>c\<in>set t. isBase64UrlChar c"
  shows "atob (paddedToken t) = Inl InvalidCharacterError \<longleftrightarrow> length t mod 4 = 1"
proof -
  let ?s = "map fromUrlSafe t"
  have p: "\<forall>c\<in>set ?s. plainChar c"
    using assms by (simp add: plainChar_fromUrlSafe)
  have len: "length ?s mod 4 = length t mod 4" by simp
  consider "length t mod 4 = 0" | "length t mod 4 = 1" | "length t mod 4 = 2" | "length t mod 4 = 3"
    by (rule mod4_cases)
  then show ?thesis
  proof cases
    case 1
    then have pt: "paddedToken t = ?s" by (rule paddedToken_cases)
    have f: "filter (\<lambda>c. \<not> isAsciiWhitespace c) ?s = ?s"
      using filter_plain_pad [OF p, of 0] by simp
    obtain bs where "(case those (map b64index ?s) of None \<Rightarrow> Inl InvalidCharacterError
            | Some sextets \<Rightarrow> Inr (sextetsToBytes sextets)) = Inr bs"
      using atob_plain_sextets [OF p] 1 len by auto
    then have "atob (paddedToken t) = Inr bs"
      unfolding pt atob_def f removePadding_plain(1) [OF p] Let_def using 1 len by simp
    with 1 show ?thesis by simp
  next
    case 2
    then have pt: "paddedToken t = ?s @ ''===''"
      by (rule paddedToken_cases)
    have f: "filter (\<lambda>c. \<not> isAsciiWhitespace c) (?s @ ''==='') = ?s @ ''===''"
      using filter_plain_pad [OF p, of 3] by (simp add: numeral_3_eq_3)
    have r: "removePadding (?s @ ''==='') = ?s @ ''=''"
      using removePadding_plain(4) [OF p] 2 len by simp
    have "those (map b64index (?s @ ''='')) = None"
      by (rule those_map_None) (simp add: b64index_equals)
    then have "atob (paddedToken t) = Inl InvalidCharacterError"
      unfolding pt atob_def f r Let_def by simp
    with 2 show ?thesis by simp
  next
    case 3
    then have pt: "paddedToken t = ?s @ ''==''"
      by (rule paddedToken_cases)
    have f: "filter (\<lambda>c. \<not> isAsciiWhitespace c) (?s @ ''=='') = ?s @ ''==''"
      using filter_plain_pad [OF p, of 2] by (simp add: numeral_2_eq_2)
    have r: "removePadding (?s @ ''=='') = ?s"
      using removePadding_plain(3) [OF p] 3 len by simp
    obtain bs where "(case those (map b64index ?s) of None \<Rightarrow> Inl InvalidCharacterError
            | Some sextets \<Rightarrow> Inr (sextetsToBytes sextets)) = Inr bs"
      using atob_plain_sextets [OF p] 3 len by auto
    then have "atob (paddedToken t) = Inr bs"
      unfolding pt atob_def f r Let_def using 3 len by simp
    with 3 show ?thesis by simp
  next
    case 4
    then have pt: "paddedToken t = ?s @ ''=''"
      by (rule paddedToken_cases)
    have f: "filter (\<lambda>c. \<not> isAsciiWhitespace c) (?s @ ''='') = ?s @ ''=''"
      using filter_plain_pad [OF p, of 1] by simp
    have r: "removePadding (?s @ ''='') = ?s"
      using removePadding_plain(2) [OF p] 4 len by simp
    obtain bs where "(case those (map b64index ?s) of None \<Rightarrow> Inl InvalidCharacterError
            | Some sextets \<Rightarrow> Inr (sextetsToBytes sextets)) = Inr bs"
      using atob_plain_sextets [OF p] 4 len by auto
    then have "atob (paddedToken t) = Inr bs"
      unfolding pt atob_def f r Let_def using 4 len by simp
    with 4 show ?thesis by simp
  qed
qed

lemma rejectedChar_fromUrlSafe:
  "rejectedChar c \<Longrightarrow>
     fromUrlSafe c = c \<and> b64index c = None \<and> c \<noteq> CHR ''='' \<and> \<not> isAsciiWhitespace c"
  by (auto simp add: rejectedChar_def isBase64UrlChar_def fromUrlSafe_def b64index_def
      char_eq_code Let_def)

lemma removePadding_keeps:
  assumes "c \<in> set d" "c \<noteq> CHR ''=''"
  shows "c \<in> set (removePadding d)"
proof -
  have 1: "c \<in> set (butlast x)" if "c \<in> set x" "last x = CHR ''=''" for x
  proof -
    from that(1) have "x \<noteq> []" by auto
    then have "butlast x @ [last x] = x" by (rule append_butlast_last_id)
    with that(1) have "c \<in> set (butlast x @ [last x])" by simp
    then have "c \<in> set (butlast x) \<or> c = last x" by auto
    with that(2) assms(2) show ?thesis by auto
  qed
  show ?thesis
    using assms(1) by (auto simp: removePadding_def intro!: 1)
qed

lemma atob_rejects:
  assumes "c \<in> set x" "b64index c = None" "c \<noteq> CHR ''=''" "\<not> isAsciiWhitespace c"
  shows "atob x = Inl InvalidCharacterError"
proof -
  let ?d = "removePadding (filter (\<lambda>c. \<not> isAsciiWhitespace c) x)"
  have "c \<in> set (filter (\<lambda>c. \<not> isAsciiWhitespace c) x)"
    using assms by simp
  then have "c \<in> set ?d"
    using assms(3) by (rule removePadding_keeps)
  then have "those (map b64index ?d) = None"
    using assms(2) by (intro those_map_None) blast
  then show ?thesis
    by (simp add: atob_def Let_def)
qed

lemma paddedToken_set: "c \<in> set t \<Longrightarrow> fromUrlSafe c \<in> set (paddedToken t)"
  by (rule mod4_cases [of "length t"]) (simp_all add: paddedToken_cases)

lemma decode_rejects:
  assumes "c \<in> set t" "rejectedChar c"
  shows "decodeBracketPicks t = Inl InvalidCharacterError"
proof -
  from assms(2) have f: "fromUrlSafe c = c" and i: "b64index c = None"
    and e: "c \<noteq> CHR ''=''" and w: "\<not> isAsciiWhitespace c"
    using rejectedChar_fromUrlSafe by blast+
  from assms(1) have "c \<in> set (paddedToken t)"
    using paddedToken_set [of c t] f by simp
  then have "atob (paddedToken t) = Inl InvalidCharacterError"
    using i e w by (rule atob_rejects)
  then show ?thesis
    by (simp add: decodeBracketPicks_padded)
qed

lemma decode_Inl_iff:
  "decodeBracketPicks t = Inl e \<longleftrightarrow> atob (paddedToken t) = Inl e"
  by (simp add: decodeBracketPicks_padded split: sum.splits)

text \<open>
  Claim C4, as amended.  \<^verbatim>\<open>decodeBracketPicks\<close> fails exactly when \<^verbatim>\<open>atob\<close> rejects the
  substituted and padded token, and then with \<^verbatim>\<open>InvalidCharacterError\<close>; whenever
  \<^verbatim>\<open>atob\<close> returns bytes, however few, the codes are returned.  A token that contains a
  character which is neither of the base64url alphabet nor \<^verbatim>\<open>+\<close>, \<^verbatim>\<open>/\<close>, \<^verbatim>\<open>=\<close> or ASCII
  whitespace fails.  A token over the base64url alphabet fails if and only if its length
  leaves the remainder 1 modulo 4.  A token produced by \<^verbatim>\<open>encodeBracketPicks\<close> never
  fails: it decodes to the codes of the bracket.
\<close>

theorem decode_error_characterisation:
  "(\<forall>e. decodeBracketPicks t = Inl e \<longrightarrow>
        e = InvalidCharacterError \<and> atob (paddedToken t) = Inl InvalidCharacterError)
   \<and> (\<forall>bytes. atob (paddedToken t) = Inr bytes \<longrightarrow>
        decodeBracketPicks t = Inr (extractCodes (unpackBytes bytes)))
   \<and> ((\<exists>c\<in>set t. rejectedChar c) \<longrightarrow> decodeBracketPicks t = Inl InvalidCharacterError)
   \<and> ((\<forall>c\<in>set t. isBase64UrlChar c) \<longrightarrow>
        (decodeBracketPicks t = Inl InvalidCharacterError \<longleftrightarrow> length t mod 4 = 1))
   \<and> decodeBracketPicks (encodeBracketPicks b) = Inr (bracketCodes b)"
proof (intro conjI allI impI)
  fix e assume a: "decodeBracketPicks t = Inl e"
  then have "atob (paddedToken t) = Inl e" by (simp add: decode_Inl_iff)
  then show "e = InvalidCharacterError" by (rule atob_error_kind)
  with a show "atob (paddedToken t) = Inl InvalidCharacterError" by (simp add: decode_Inl_iff)
next
  fix bytes assume "atob (paddedToken t) = Inr bytes"
  then show "decodeBracketPicks t = Inr (extractCodes (unpackBytes bytes))"
    by (simp add: decodeBracketPicks_padded)
next
  assume "\<exists>c\<in>set t. rejectedChar c"
  then show "decodeBracketPicks t = Inl InvalidCharacterError"
    using decode_rejects by blast
next
  assume "\<forall>c\<in>set t. isBase64UrlChar c"
  then show "decodeBracketPicks t = Inl InvalidCharacterError \<longleftrightarrow> length t mod 4 = 1"
    by (simp add: decode_Inl_iff atob_paddedToken_plain)
next
  show "decodeBracketPicks (encodeBracketPicks b) = Inr (bracketCodes b)"
    by (rule decode_encode)
qed

theorem decode_error_characterisation_witness:
  "rejectedChar (CHR ''!'')
   \<and> decodeBracketPicks ''AA!AAQ'' = Inl InvalidCharacterError
   \<and> isBase64UrlChar (CHR ''A'')
   \<and> length ''AAAAA'' mod 4 = 1
   \<and> decodeBracketPicks ''AAAAA'' = Inl InvalidCharacterError
   \<and> decodeBracketPicks ''AAAAAQ'' \<noteq> Inl InvalidCharacterError"
proof -
  have r: "rejectedChar (CHR ''!'')"
    by (simp add: rejectedChar_def isBase64UrlChar_def isAsciiWhitespace_def)
  have a: "isBase64UrlChar (CHR ''A'')" and q: "isBase64UrlChar (CHR ''Q'')"
    by (simp_all add: isBase64UrlChar_def)
  from decode_error_characterisation [of "''AA!AAQ''" sampleSuperBowlOnly] r
  have 1: "decodeBracketPicks ''AA!AAQ'' = Inl InvalidCharacterError"
    by simp
  from decode_error_characterisation [of "''AAAAA''" sampleSuperBowlOnly] a
  have 2: "decodeBracketPicks ''AAAAA'' = Inl InvalidCharacterError"
    by simp
  from decode_error_characterisation [of "''AAAAAQ''" sampleSuperBowlOnly] a q
  have 3: "decodeBracketPicks ''AAAAAQ'' \<noteq> Inl InvalidCharacterError"
    by simp
  from r 1 a 2 3 show ?thesis by simp
qed

text \<open>
  Claim C4 as stated fails: the token \<^verbatim>\<open>AA\<close> decodes to one byte, fewer than 4, and
  \<^verbatim>\<open>decodeBracketPicks\<close> returns 13 codes instead of failing; the token \<^verbatim>\<open>AAA+AQ\<close>
  contains \<^verbatim>\<open>+\<close>, which is outside the base64url alphabet, and is decoded as well.
\<close>

theorem decode_short_token_counterexample:
  "atob (paddedToken ''AA'') = Inr [0]
   \<and> length [0 :: 8 word] < 4
   \<and> decodeBracketPicks ''AA'' = Inr [0, 0, 0, 0, 0, 0, 0, 0, 0, 0, 0, 0, 0]
   \<and> \<not> isBase64UrlChar (CHR ''+'')
   \<and> decodeBracketPicks ''AAA+AQ'' = Inr [0, 0, 0, 0, 0, 0, 0, 0, 2, 3, 3, 0, 1]"
proof (intro conjI)
  show "atob (paddedToken ''AA'') = Inr [0]" by code_simp
  show "length [0 :: 8 word] < 4" by simp
  show "decodeBracketPicks ''AA'' = Inr [0, 0, 0, 0, 0, 0, 0, 0, 0, 0, 0, 0, 0]" by code_simp
  show "\<not> isBase64UrlChar (CHR ''+'')" by (simp add: isBase64UrlChar_def)
  show "decodeBracketPicks ''AAA+AQ'' = Inr [0, 0, 0, 0, 0, 0, 0, 0, 2, 3, 3, 0, 1]" by code_simp
qed

section \<open>Applying the codes round by round\<close>

lemma applyCode_slots [simp]:
  "homeTeam (applyCode m c) = homeTeam m" "awayTeam (applyCode m c) = awayTeam m"
  by (simp_all add: applyCode_def)

lemma spreadWithTeams_slots [simp]:
  "homeTeam (spreadWithTeams mo h a) = h" "awayTeam (spreadWithTeams mo h a) = a"
  by (simp_all add: spreadWithTeams_def split: option.splits)

text \<open>
  Claim C5.  Over any playoff rules whose fresh bracket has its three wild card matchups
  per conference, \<^verbatim>\<open>applyPicksToFreshBracket\<close> returns a bracket \<open>B\<close> in which the wild
  card codes are applied to the fresh seeding directly; the divisional matchups of a
  conference have the team slots computed from the winners of the wild card matchups of
  \<open>B\<close>, and their codes are applied to matchups with these slots; the championship has
  the slots computed from the winners of the divisional matchups of \<open>B\<close>, and the
  Super Bowl has the two conference champions of \<open>B\<close> as its slots, each before its own
  code is applied.  No code is applied to other slots.
\<close>

theorem apply_derives_each_round_first:
  fixes rules :: playoff_rules and codes :: "nat list" and name :: string
  defines "F \<equiv> createInitialBracketFn rules name"
  defines "code \<equiv> at_index codes"
  assumes shape: "3 \<le> length (wildCard (afc F))" "3 \<le> length (wildCard (nfc F))"
  shows "\<exists>B. applyPicksToFreshBracket rules codes name = Inr B
    \<and> wildCard (afc B) =
        [applyCode (wildCard (afc F) ! 0) (code 0), applyCode (wildCard (afc F) ! 1) (code 1),
         applyCode (wildCard (afc F) ! 2) (code 2)]
    \<and> wildCard (nfc B) =
        [applyCode (wildCard (nfc F) ! 0) (code 3), applyCode (wildCard (nfc F) ! 1) (code 4),
         applyCode (wildCard (nfc F) ! 2) (code 5)]
    \<and> (let d = calculateDivisionalMatchupsFn rules AFC (map winner (wildCard (afc B))) in
        divisional (afc B) =
          [applyCode (spreadWithTeams (at_index (divisional (afc F)) 0)
             (home (matchup1 d)) (away (matchup1 d))) (code 6),
           applyCode (spreadWithTeams (at_index (divisional (afc F)) 1)
             (home (matchup2 d)) (away (matchup2 d))) (code 7)]
        \<and> map homeTeam (divisional (afc B)) = [home (matchup1 d), home (matchup2 d)]
        \<and> map awayTeam (divisional (afc B)) = [away (matchup1 d), away (matchup2 d)])
    \<and> (let d = calculateDivisionalMatchupsFn rules NFC (map winner (wildCard (nfc B))) in
        divisional (nfc B) =
          [applyCode (spreadWithTeams (at_index (divisional (nfc F)) 0)
             (home (matchup1 d)) (away (matchup1 d))) (code 8),
           applyCode (spreadWithTeams (at_index (divisional (nfc F)) 1)
             (home (matchup2 d)) (away (matchup2 d))) (code 9)]
        \<and> map homeTeam (divisional (nfc B)) = [home (matchup1 d), home (matchup2 d)]
        \<and> map awayTeam (divisional (nfc B)) = [away (matchup1 d), away (matchup2 d)])
    \<and> (let p = calculateChampionshipMatchupFn rules (map winner (divisional (afc B))) in
        championship (afc B) =
          Some (applyCode (spreadWithTeams (championship (afc F)) (home p) (away p)) (code 10))
        \<and> map_option homeTeam (championship (afc B)) = Some (home p)
        \<and> map_option awayTeam (championship (afc B)) = Some (away p))
    \<and> (let p = calculateChampionshipMatchupFn rules (map winner (divisional (nfc B))) in
        championship (nfc B) =
          Some (applyCode (spreadWithTeams (championship (nfc F)) (home p) (away p)) (code 11))
        \<and> map_option homeTeam (championship (nfc B)) = Some (home p)
        \<and> map_option awayTeam (championship (nfc B)) = Some (away p))
    \<and> (let a = (case championship (afc B) of None \<Rightarrow> None | Some m \<Rightarrow> winner m);
            n = (case championship (nfc B) of None \<Rightarrow> None | Some m \<Rightarrow> winner m) in
        superBowl B = Some (applyCode (spreadWithTeams (superBowl F) a n) (code 12))
        \<and> map_option homeTeam (superBowl B) = Some a
        \<and> map_option awayTeam (superBowl B) = Some n)"
  using shape unfolding F_def code_def
  by (simp add: applyPicksToFreshBracket_def Let_def)

lemma sample_fresh_shape:
  "3 \<le> length (wildCard (afc (createInitialBracketFn sampleRules name)))"
  "3 \<le> length (wildCard (nfc (createInitialBracketFn sampleRules name)))"
  by (simp_all add: sampleRules_def playoffRules_def createInitialBracket_def initialConference_def)

theorem apply_derives_each_round_first_witness:
  "3 \<le> length (wildCard (afc (createInitialBracketFn sampleRules ''Sam'')))
   \<and> 3 \<le> length (wildCard (nfc (createInitialBracketFn sampleRules ''Sam'')))
   \<and> (\<exists>B. applyPicksToFreshBracket sampleRules sampleCodes ''Sam'' = Inr B
        \<and> map winner (wildCard (afc B)) =
            [Some (sampleSeeds AFC 2), Some (sampleSeeds AFC 6), Some (sampleSeeds AFC 4)]
        \<and> map homeTeam (divisional (afc B)) = [Some (sampleSeeds AFC 1), Some (sampleSeeds AFC 2)]
        \<and> map awayTeam (divisional (afc B)) = [Some (sampleSeeds AFC 6), Some (sampleSeeds AFC 4)])"
proof -
  let ?F = "createInitialBracketFn sampleRules ''Sam''"
  have s: "3 \<le> length (wildCard (afc ?F))" "3 \<le> length (wildCard (nfc ?F))"
    by (rule sample_fresh_shape)+
  from apply_derives_each_round_first [OF s, of sampleCodes]
  obtain B where B: "applyPicksToFreshBracket sampleRules sampleCodes ''Sam'' = Inr B"
    and wc: "wildCard (afc B) =
        [applyCode (wildCard (afc ?F) ! 0) (at_index sampleCodes 0),
         applyCode (wildCard (afc ?F) ! 1) (at_index sampleCodes 1),
         applyCode (wildCard (afc ?F) ! 2) (at_index sampleCodes 2)]"
    and dv: "let d = calculateDivisionalMatchupsFn sampleRules AFC (map winner (wildCard (afc B))) in
        divisional (afc B) =
          [applyCode (spreadWithTeams (at_index (divisional (afc ?F)) 0)
             (home (matchup1 d)) (away (matchup1 d))) (at_index sampleCodes 6),
           applyCode (spreadWithTeams (at_index (divisional (afc ?F)) 1)
             (home (matchup2 d)) (away (matchup2 d))) (at_index sampleCodes 7)]
        \<and> map homeTeam (divisional (afc B)) = [home (matchup1 d), home (matchup2 d)]
        \<and> map awayTeam (divisional (afc B)) = [away (matchup1 d), away (matchup2 d)]"
    by blast
  have w: "map winner (wildCard (afc B)) =
      [Some (sampleSeeds AFC 2), Some (sampleSeeds AFC 6), Some (sampleSeeds AFC 4)]"
    unfolding wc
    by (simp add: sampleRules_def playoffRules_def createInitialBracket_def initialConference_def
        seededMatchup_def applyCode_def at_index_def sampleCodes_def)
  have d: "calculateDivisionalMatchupsFn sampleRules AFC
      [Some (sampleSeeds AFC 2), Some (sampleSeeds AFC 6), Some (sampleSeeds AFC 4)] =
      \<lparr>matchup1 = \<lparr>home = Some (sampleSeeds AFC 1), away = Some (sampleSeeds AFC 6)\<rparr>,
       matchup2 = \<lparr>home = Some (sampleSeeds AFC 2), away = Some (sampleSeeds AFC 4)\<rparr>\<rparr>"
    by (simp add: sampleRules_def playoffRules_def calculateDivisionalMatchups_def sampleSeeds_def)
  from dv have hd: "map homeTeam (divisional (afc B)) = [Some (sampleSeeds AFC 1), Some (sampleSeeds AFC 2)]"
    and ad: "map awayTeam (divisional (afc B)) = [Some (sampleSeeds AFC 6), Some (sampleSeeds AFC 4)]"
    unfolding w d Let_def by simp_all
  from s B w hd ad show ?thesis
    by (intro conjI exI [of _ B])
qed

section \<open>A code that refers to an empty slot\<close>

lemma applyCode_null_slot:
  "c = Some 1 \<and> homeTeam m = None \<or> c = Some 2 \<and> awayTeam m = None \<Longrightarrow>
   winner (applyCode m c) = None"
  by (auto simp: applyCode_def)

lemma apply_fields:
  fixes rules :: playoff_rules and codes :: "nat list" and name :: string
  defines "F \<equiv> createInitialBracketFn rules name"
  defines "code \<equiv> at_index codes"
  assumes shape: "3 \<le> length (wildCard (afc F))" "3 \<le> length (wildCard (nfc F))"
  shows "\<exists>B. applyPicksToFreshBracket rules codes name = Inr B
    \<and> wildCard (afc B) =
        [applyCode (wildCard (afc F) ! 0) (code 0), applyCode (wildCard (afc F) ! 1) (code 1),
         applyCode (wildCard (afc F) ! 2) (code 2)]
    \<and> wildCard (nfc B) =
        [applyCode (wildCard (nfc F) ! 0) (code 3), applyCode (wildCard (nfc F) ! 1) (code 4),
         applyCode (wildCard (nfc F) ! 2) (code 5)]
    \<and> divisional (afc B) =
        [applyCode (spreadWithTeams (at_index (divisional (afc F)) 0)
           (home (matchup1 (calculateDivisionalMatchupsFn rules AFC (map winner (wildCard (afc B))))))
           (away (matchup1 (calculateDivisionalMatchupsFn rules AFC (map winner (wildCard (afc B)))))))
           (code 6),
         applyCode (spreadWithTeams (at_index (divisional (afc F)) 1)
           (home (matchup2 (calculateDivisionalMatchupsFn rules AFC (map winner (wildCard (afc B))))))
           (away (matchup2 (calculateDivisionalMatchupsFn rules AFC (map winner (wildCard (afc B)))))))
           (code 7)]
    \<and> divisional (nfc B) =
        [applyCode (spreadWithTeams (at_index (divisional (nfc F)) 0)
           (home (matchup1 (calculateDivisionalMatchupsFn rules NFC (map winner (wildCard (nfc B))))))
           (away (matchup1 (calculateDivisionalMatchupsFn rules NFC (map winner (wildCard (nfc B)))))))
           (code 8),
         applyCode (spreadWithTeams (at_index (divisional (nfc F)) 1)
           (home (matchup2 (calculateDivisionalMatchupsFn rules NFC (map winner (wildCard (nfc B))))))
           (away (matchup2 (calculateDivisionalMatchupsFn rules NFC (map winner (wildCard (nfc B)))))))
           (code 9)]
    \<and> championship (afc B) =
        Some (applyCode (spreadWithTeams (championship (afc F))
          (home (calculateChampionshipMatchupFn rules (map winner (divisional (afc B)))))
          (away (calculateChampionshipMatchupFn rules (map winner (divisional (afc B)))))) (code 10))
    \<and> championship (nfc B) =
        Some (applyCode (spreadWithTeams (championship (nfc F))
          (home (calculateChampionshipMatchupFn rules (map winner (divisional (nfc B)))))
          (away (calculateChampionshipMatchupFn rules (map winner (divisional (nfc B)))))) (code 11))
    \<and> superBowl B =
        Some (applyCode (spreadWithTeams (superBowl F)
          (winnerOf (championship (afc B))) (winnerOf (championship (nfc B)))) (code 12))
    \<and> isComplete B = isBracketCompleteFn rules (B\<lparr>isComplete := isComplete F\<rparr>)"
  using shape unfolding F_def code_def
  by (simp add: applyPicksToFreshBracket_def Let_def winnerOf_def)

lemma apply_matchups:
  assumes "3 \<le> length (wildCard (afc (createInitialBracketFn rules name)))"
    and "3 \<le> length (wildCard (nfc (createInitialBracketFn rules name)))"
  shows "\<exists>B. applyPicksToFreshBracket rules codes name = Inr B
    \<and> (\<forall>i<13. \<exists>x. getAllMatchupsOrdered B ! i = Some (applyCode x (at_index codes i)))"
proof -
  from apply_fields [OF assms, of codes] obtain B a0 a1 a2 n0 n1 n2 d0 d1 e0 e1 ca cn sb where
    B: "applyPicksToFreshBracket rules codes name = Inr B"
    and f: "wildCard (afc B) = [applyCode a0 (at_index codes 0),
       applyCode a1 (at_index codes 1), applyCode a2 (at_index codes 2)]"
     "wildCard (nfc B) = [applyCode n0 (at_index codes 3),
       applyCode n1 (at_index codes 4), applyCode n2 (at_index codes 5)]"
     "divisional (afc B) = [applyCode d0 (at_index codes 6), applyCode d1 (at_index codes 7)]"
     "divisional (nfc B) = [applyCode e0 (at_index codes 8), applyCode e1 (at_index codes 9)]"
     "championship (afc B) = Some (applyCode ca (at_index codes 10))"
     "championship (nfc B) = Some (applyCode cn (at_index codes 11))"
     "superBowl B = Some (applyCode sb (at_index codes 12))"
    by blast
  have g: "getAllMatchupsOrdered B =
      [Some (applyCode a0 (at_index codes 0)), Some (applyCode a1 (at_index codes 1)),
       Some (applyCode a2 (at_index codes 2)), Some (applyCode n0 (at_index codes 3)),
       Some (applyCode n1 (at_index codes 4)), Some (applyCode n2 (at_index codes 5)),
       Some (applyCode d0 (at_index codes 6)), Some (applyCode d1 (at_index codes 7)),
       Some (applyCode e0 (at_index codes 8)), Some (applyCode e1 (at_index codes 9)),
       Some (applyCode ca (at_index codes 10)), Some (applyCode cn (at_index codes 11)),
       Some (applyCode sb (at_index codes 12))]"
    unfolding getAllMatchupsOrdered_def f by (simp add: at_index_def)
  have "\<exists>x. getAllMatchupsOrdered B ! i = Some (applyCode x (at_index codes i))" if "i < 13" for i
  proof -
    from that have "i = 0 \<or> i = 1 \<or> i = 2 \<or> i = 3 \<or> i = 4 \<or> i = 5 \<or> i = 6 \<or> i = 7
        \<or> i = 8 \<or> i = 9 \<or> i = 10 \<or> i = 11 \<or> i = 12"
      by presburger
    then show ?thesis
      unfolding g by (elim disjE) (simp_all, blast+)
  qed
  with B show ?thesis by blast
qed

text \<open>
  Claim C6.  A code of 1 applied to a matchup whose home slot is empty, or a code of 2
  applied to a matchup whose away slot is empty, leaves the matchup without a winner.
  Over any playoff rules whose fresh bracket has its three wild card matchups per
  conference, \<^verbatim>\<open>applyPicksToFreshBracket\<close> returns a bracket (it does not raise) whose
  13 matchups are all present, and a matchup whose code is 1 or 2 and whose referenced
  slot is empty has no winner.
\<close>

theorem null_slot_gives_no_winner:
  fixes rules :: playoff_rules and codes :: "nat list" and name :: string
  defines "F \<equiv> createInitialBracketFn rules name"
  assumes shape: "3 \<le> length (wildCard (afc F))" "3 \<le> length (wildCard (nfc F))"
  shows "(\<forall>m c. c = Some 1 \<and> homeTeam m = None \<or> c = Some 2 \<and> awayTeam m = None
            \<longrightarrow> winner (applyCode m c) = None)
    \<and> (\<exists>B. applyPicksToFreshBracket rules codes name = Inr B
          \<and> (\<forall>i<13. \<exists>m. getAllMatchupsOrdered B ! i = Some m
                \<and> (at_index codes i = Some 1 \<and> homeTeam m = None
                      \<or> at_index codes i = Some 2 \<and> awayTeam m = None
                    \<longrightarrow> winner m = None)))"
proof (intro conjI allI impI)
  fix m :: matchup and c :: "nat option"
  assume "c = Some 1 \<and> homeTeam m = None \<or> c = Some 2 \<and> awayTeam m = None"
  then show "winner (applyCode m c) = None"
    by (rule applyCode_null_slot)
next
  from apply_matchups [OF shape [unfolded F_def], of codes] obtain B where
    B: "applyPicksToFreshBracket rules codes name = Inr B"
    and g: "\<forall>i<13. \<exists>x. getAllMatchupsOrdered B ! i = Some (applyCode x (at_index codes i))"
    by blast
  have "\<exists>m. getAllMatchupsOrdered B ! i = Some m
          \<and> (at_index codes i = Some 1 \<and> homeTeam m = None
                \<or> at_index codes i = Some 2 \<and> awayTeam m = None
              \<longrightarrow> winner m = None)" if "i < 13" for i
  proof -
    from g that obtain x where x: "getAllMatchupsOrdered B ! i = Some (applyCode x (at_index codes i))"
      by blast
    have "at_index codes i = Some 1 \<and> homeTeam (applyCode x (at_index codes i)) = None
        \<or> at_index codes i = Some 2 \<and> awayTeam (applyCode x (at_index codes i)) = None
      \<longrightarrow> winner (applyCode x (at_index codes i)) = None"
      by (auto simp: applyCode_def)
    with x show ?thesis by blast
  qed
  with B show "\<exists>B. applyPicksToFreshBracket rules codes name = Inr B
          \<and> (\<forall>i<13. \<exists>m. getAllMatchupsOrdered B ! i = Some m
                \<and> (at_index codes i = Some 1 \<and> homeTeam m = None
                      \<or> at_index codes i = Some 2 \<and> awayTeam m = None
                    \<longrightarrow> winner m = None))"
    by blast
qed

lemma sample_null_slot:
  "(case applyPicksToFreshBracket sampleRules sampleNullCodes ''Sam'' of
      Inl e \<Rightarrow> False
    | Inr B \<Rightarrow> map_option homeTeam (getAllMatchupsOrdered B ! 12) = Some None
         \<and> map_option awayTeam (getAllMatchupsOrdered B ! 6) = Some None)"
  by code_simp

theorem null_slot_gives_no_winner_witness:
  "3 \<le> length (wildCard (afc (createInitialBracketFn sampleRules ''Sam'')))
   \<and> 3 \<le> length (wildCard (nfc (createInitialBracketFn sampleRules ''Sam'')))
   \<and> at_index sampleNullCodes 12 = Some 1
   \<and> at_index sampleNullCodes 6 = Some 2
   \<and> (\<exists>B. applyPicksToFreshBracket sampleRules sampleNullCodes ''Sam'' = Inr B
        \<and> map_option homeTeam (getAllMatchupsOrdered B ! 12) = Some None
        \<and> map_option winner (getAllMatchupsOrdered B ! 12) = Some None
        \<and> map_option awayTeam (getAllMatchupsOrdered B ! 6) = Some None
        \<and> map_option winner (getAllMatchupsOrdered B ! 6) = Some None)"
proof -
  let ?F = "createInitialBracketFn sampleRules ''Sam''"
  have s: "3 \<le> length (wildCard (afc ?F))" "3 \<le> length (wildCard (nfc ?F))"
    by (rule sample_fresh_shape)+
  have c: "at_index sampleNullCodes 12 = Some 1" "at_index sampleNullCodes 6 = Some 2"
    by (simp_all add: at_index_def sampleNullCodes_def)
  from null_slot_gives_no_winner [OF s, of sampleNullCodes] obtain B where
    B: "applyPicksToFreshBracket sampleRules sampleNullCodes ''Sam'' = Inr B"
    and g: "\<forall>i<13. \<exists>m. getAllMatchupsOrdered B ! i = Some m
                \<and> (at_index sampleNullCodes i = Some 1 \<and> homeTeam m = None
                      \<or> at_index sampleNullCodes i = Some 2 \<and> awayTeam m = None
                    \<longrightarrow> winner m = None)"
    by blast
  from sample_null_slot B
  have h: "map_option homeTeam (getAllMatchupsOrdered B ! 12) = Some None"
    and a: "map_option awayTeam (getAllMatchupsOrdered B ! 6) = Some None"
    by simp_all
  from g [rule_format, of 12] c(1) h
  have w12: "map_option winner (getAllMatchupsOrdered B ! 12) = Some None"
    by auto
  from g [rule_format, of 6] c(2) a
  have w6: "map_option winner (getAllMatchupsOrdered B ! 6) = Some None"
    by auto
  from s c B h w12 a w6 show ?thesis
    by (intro conjI exI [of _ B])
qed

section \<open>The completion flag\<close>

text \<open>
  Claim C7.  Over any playoff rules whose fresh bracket has its three wild card matchups
  per conference, the bracket returned by \<^verbatim>\<open>applyPicksToFreshBracket\<close> has the flag
  \<^verbatim>\<open>isComplete\<close> that \<^verbatim>\<open>isBracketComplete\<close> computes on the bracket with all codes
  applied.  With \<^verbatim>\<open>isBracketComplete\<close> as the specification describes it, the flag is
  true if and only if all 13 matchups of the returned bracket have a winner.
\<close>

theorem isComplete_recomputed:
  fixes rules :: playoff_rules and codes :: "nat list" and name :: string
  defines "F \<equiv> createInitialBracketFn rules name"
  assumes shape: "3 \<le> length (wildCard (afc F))" "3 \<le> length (wildCard (nfc F))"
  shows "\<exists>B. applyPicksToFreshBracket rules codes name = Inr B
    \<and> isComplete B = isBracketCompleteFn rules (B\<lparr>isComplete := isComplete F\<rparr>)
    \<and> (isBracketCompleteFn rules = isBracketComplete \<longrightarrow>
         isComplete B = isBracketComplete B
         \<and> (isComplete B \<longleftrightarrow>
              (\<forall>i<13. \<exists>m w. getAllMatchupsOrdered B ! i = Some m \<and> winner m = Some w)))"
proof -
  from apply_fields [OF shape [unfolded F_def], of codes] obtain B where
    B: "applyPicksToFreshBracket rules codes name = Inr B"
    and c: "isComplete B = isBracketCompleteFn rules (B\<lparr>isComplete := isComplete F\<rparr>)"
    unfolding F_def by blast
  have 1: "isBracketComplete (B\<lparr>isComplete := x\<rparr>) = isBracketComplete B" for x
    by (simp add: isBracketComplete_def getAllMatchupsOrdered_def)
  have len: "length (getAllMatchupsOrdered B) = 13"
    by (simp add: getAllMatchupsOrdered_def)
  have 2: "isBracketComplete B \<longleftrightarrow>
      (\<forall>i<13. \<exists>m w. getAllMatchupsOrdered B ! i = Some m \<and> winner m = Some w)"
  proof -
    have h: "hasWinner mo \<longleftrightarrow> (\<exists>m w. mo = Some m \<and> winner m = Some w)" for mo
      by (cases mo) (auto simp: hasWinner_def)
    show ?thesis
      unfolding isBracketComplete_def list_all_length len h ..
  qed
  from B c 1 2 show ?thesis by auto
qed

lemma sample_complete:
  "(case applyPicksToFreshBracket sampleRules sampleCodes ''Sam'' of
      Inl e \<Rightarrow> False | Inr B \<Rightarrow> isComplete B)"
  by code_simp

lemma sample_incomplete:
  "(case applyPicksToFreshBracket sampleRules sampleNullCodes ''Sam'' of
      Inl e \<Rightarrow> False | Inr B \<Rightarrow> \<not> isComplete B)"
  by code_simp

theorem isComplete_recomputed_witness:
  "3 \<le> length (wildCard (afc (createInitialBracketFn sampleRules ''Sam'')))
   \<and> 3 \<le> length (wildCard (nfc (createInitialBracketFn sampleRules ''Sam'')))
   \<and> isBracketCompleteFn sampleRules = isBracketComplete
   \<and> (\<exists>B. applyPicksToFreshBracket sampleRules sampleCodes ''Sam'' = Inr B
        \<and> isComplete B \<and> isBracketComplete B)
   \<and> (\<exists>B. applyPicksToFreshBracket sampleRules sampleNullCodes ''Sam'' = Inr B
        \<and> \<not> isComplete B \<and> \<not> isBracketComplete B)"
proof -
  let ?F = "createInitialBracketFn sampleRules ''Sam''"
  have s: "3 \<le> length (wildCard (afc ?F))" "3 \<le> length (wildCard (nfc ?F))"
    by (rule sample_fresh_shape)+
  have r: "isBracketCompleteFn sampleRules = isBracketComplete"
    by (simp add: sampleRules_def playoffRules_def)
  from isComplete_recomputed [OF s, of sampleCodes] r obtain B where
    B: "applyPicksToFreshBracket sampleRules sampleCodes ''Sam'' = Inr B"
    and e: "isComplete B = isBracketComplete B"
    by blast
  from sample_complete B have i: "isComplete B" by simp
  with e have j: "isBracketComplete B" by simp
  from isComplete_recomputed [OF s, of sampleNullCodes] r obtain B' where
    B': "applyPicksToFreshBracket sampleRules sampleNullCodes ''Sam'' = Inr B'"
    and e': "isComplete B' = isBracketComplete B'"
    by blast
  from sample_incomplete B' have i': "\<not> isComplete B'" by simp
  with e' have j': "\<not> isBracketComplete B'" by simp
  from B i j have 1: "\<exists>B. applyPicksToFreshBracket sampleRules sampleCodes ''Sam'' = Inr B
        \<and> isComplete B \<and> isBracketComplete B"
    by (intro exI [of _ B] conjI)
  from B' i' j' have 2: "\<exists>B. applyPicksToFreshBracket sampleRules sampleNullCodes ''Sam'' = Inr B
        \<and> \<not> isComplete B \<and> \<not> isBracketComplete B"
    by (intro exI [of _ B'] conjI)
  from s r 1 2 show ?thesis by (intro conjI)
qed

section \<open>The round trip\<close>

lemma sameGame_code: "sameGame x m \<Longrightarrow> getWinnerCode (Some x) = getWinnerCode (Some m)"
  by (cases "winner m") (simp_all add: sameGame_def getWinnerCode_def)

lemma applyCode_restores:
  assumes "homeTeam x = homeTeam m" "awayTeam x = awayTeam m" "winner m = Some w"
    and "winnerConsistent m"
  shows "sameGame (applyCode x (Some (getWinnerCode (Some m)))) m"
proof -
  from assms(3,4) have hw: "homeTeam m = Some w \<or> awayTeam m = Some w"
    by (simp add: winnerConsistent_def)
  show ?thesis
  proof (cases "homeTeam m = Some w")
    case True
    with assms show ?thesis
      by (simp add: sameGame_def applyCode_def getWinnerCode_def)
  next
    case False
    with hw have a: "awayTeam m = Some w" by simp
    show ?thesis
    proof (cases "homeTeam m")
      case None
      with a assms show ?thesis
        by (simp add: sameGame_def applyCode_def getWinnerCode_def)
    next
      case (Some h)
      from assms(3,4) Some a have "team_id h = team_id w \<longrightarrow> h = w"
        by (simp add: winnerConsistent_def)
      with False Some have "team_id h \<noteq> team_id w"
        by auto
      with a Some assms show ?thesis
        by (simp add: sameGame_def applyCode_def getWinnerCode_def)
    qed
  qed
qed

lemma applyCode_undecided:
  assumes "winner x = None" "getWinnerCode mo = 0"
  shows "applyCode x (Some (getWinnerCode mo)) = x" "getWinnerCode (Some x) = 0"
  using assms by (simp_all add: applyCode_def getWinnerCode_def)

lemma applyCode_agrees:
  assumes v: "matchupValid h a mo" and x: "homeTeam x = h" "awayTeam x = a" "winner x = None"
  shows "agrees (applyCode x (Some (getWinnerCode mo))) mo"
proof (cases mo)
  case None
  then have "getWinnerCode mo = 0" by (simp add: getWinnerCode_def)
  from applyCode_undecided [OF x(3) this] x(3) None show ?thesis
    by (simp add: agrees_def winnerOf_def getWinnerCode_def)
next
  case (Some m)
  show ?thesis
  proof (cases "winner m")
    case None
    with Some have "getWinnerCode mo = 0" by (simp add: getWinnerCode_def)
    from applyCode_undecided [OF x(3) this] x(3) None Some show ?thesis
      by (simp add: agrees_def winnerOf_def getWinnerCode_def)
  next
    case (Some w)
    with v \<open>mo = Some m\<close> have "slotsAre h a m" "winnerConsistent m"
      by (simp_all add: matchupValid_def)
    with x have "homeTeam x = homeTeam m" "awayTeam x = awayTeam m"
      by (simp_all add: slotsAre_def)
    from applyCode_restores [OF this Some \<open>winnerConsistent m\<close>]
    have g: "sameGame (applyCode x (Some (getWinnerCode (Some m)))) m" .
    then have "winner (applyCode x (Some (getWinnerCode (Some m)))) = winner m"
      by (simp add: sameGame_def)
    with g sameGame_code [OF g] \<open>mo = Some m\<close> show ?thesis
      by (simp add: agrees_def winnerOf_def)
  qed
qed

lemma spread_agrees:
  assumes "matchupValid h a mo" "undecided fo"
  shows "agrees (applyCode (spreadWithTeams fo h a) (Some (getWinnerCode mo))) mo"
proof (rule applyCode_agrees [OF assms(1)])
  show "homeTeam (spreadWithTeams fo h a) = h" "awayTeam (spreadWithTeams fo h a) = a"
    by simp_all
  show "winner (spreadWithTeams fo h a) = None"
    using assms(2) by (auto simp: spreadWithTeams_def undecided_def split: option.splits)
qed

lemma agrees_winner: "agrees x mo \<Longrightarrow> winner x = winnerOf mo"
  by (simp add: agrees_def)

text \<open>One conference: the rounds of the result agree with those of a valid conference.\<close>

lemma conference_agrees:
  assumes v: "validConference rules c FC SC"
    and fw: "winner (wildCard FC ! 0) = None" "winner (wildCard FC ! 1) = None"
      "winner (wildCard FC ! 2) = None"
    and fd: "undecided (at_index (divisional FC) 0)" "undecided (at_index (divisional FC) 1)"
      "undecided (championship FC)"
    and bw: "BW = [applyCode (wildCard FC ! 0) (Some (getWinnerCode (at_index (wildCard SC) 0))),
        applyCode (wildCard FC ! 1) (Some (getWinnerCode (at_index (wildCard SC) 1))),
        applyCode (wildCard FC ! 2) (Some (getWinnerCode (at_index (wildCard SC) 2)))]"
    and bd: "BD = [applyCode (spreadWithTeams (at_index (divisional FC) 0)
           (home (matchup1 (calculateDivisionalMatchupsFn rules c (map winner BW))))
           (away (matchup1 (calculateDivisionalMatchupsFn rules c (map winner BW)))))
           (Some (getWinnerCode (at_index (divisional SC) 0))),
         applyCode (spreadWithTeams (at_index (divisional FC) 1)
           (home (matchup2 (calculateDivisionalMatchupsFn rules c (map winner BW))))
           (away (matchup2 (calculateDivisionalMatchupsFn rules c (map winner BW)))))
           (Some (getWinnerCode (at_index (divisional SC) 1)))]"
    and bc: "BC = applyCode (spreadWithTeams (championship FC)
          (home (calculateChampionshipMatchupFn rules (map winner BD)))
          (away (calculateChampionshipMatchupFn rules (map winner BD))))
          (Some (getWinnerCode (championship SC)))"
  shows "agrees (BW ! 0) (at_index (wildCard SC) 0)" "agrees (BW ! 1) (at_index (wildCard SC) 1)"
    "agrees (BW ! 2) (at_index (wildCard SC) 2)"
    "agrees (BD ! 0) (at_index (divisional SC) 0)" "agrees (BD ! 1) (at_index (divisional SC) 1)"
    "agrees BC (championship SC)"
proof -
  let ?d = "calculateDivisionalMatchupsFn rules c (wildCardWinners SC)"
  let ?p = "calculateChampionshipMatchupFn rules (divisionalWinners SC)"
  from v have vw:
      "matchupValid (homeTeam (wildCard FC ! 0)) (awayTeam (wildCard FC ! 0)) (at_index (wildCard SC) 0)"
      "matchupValid (homeTeam (wildCard FC ! 1)) (awayTeam (wildCard FC ! 1)) (at_index (wildCard SC) 1)"
      "matchupValid (homeTeam (wildCard FC ! 2)) (awayTeam (wildCard FC ! 2)) (at_index (wildCard SC) 2)"
    and vd: "matchupValid (home (matchup1 ?d)) (away (matchup1 ?d)) (at_index (divisional SC) 0)"
      "matchupValid (home (matchup2 ?d)) (away (matchup2 ?d)) (at_index (divisional SC) 1)"
    and vc: "matchupValid (home ?p) (away ?p) (championship SC)"
    unfolding validConference_def Let_def by blast+
  have w0: "agrees (BW ! 0) (at_index (wildCard SC) 0)"
    unfolding bw nth_Cons_0 using vw(1) _ _ fw(1) by (rule applyCode_agrees) simp_all
  have w1: "agrees (BW ! 1) (at_index (wildCard SC) 1)"
    unfolding bw using applyCode_agrees [OF vw(2) refl refl fw(2)] by simp
  have w2: "agrees (BW ! 2) (at_index (wildCard SC) 2)"
    unfolding bw using applyCode_agrees [OF vw(3) refl refl fw(3)] by simp
  have "map winner BW = [winner (BW ! 0), winner (BW ! 1), winner (BW ! 2)]"
    unfolding bw by simp
  then have w: "map winner BW = wildCardWinners SC"
    unfolding wildCardWinners_def agrees_winner [OF w0] agrees_winner [OF w1] agrees_winner [OF w2] .
  have d0: "agrees (BD ! 0) (at_index (divisional SC) 0)"
    unfolding bd w using spread_agrees [OF vd(1) fd(1)] by simp
  have d1: "agrees (BD ! 1) (at_index (divisional SC) 1)"
    unfolding bd w using spread_agrees [OF vd(2) fd(2)] by simp
  have "map winner BD = [winner (BD ! 0), winner (BD ! 1)]"
    unfolding bd by simp
  then have d: "map winner BD = divisionalWinners SC"
    unfolding divisionalWinners_def agrees_winner [OF d0] agrees_winner [OF d1] .
  have c: "agrees BC (championship SC)"
    unfolding bc d using vc fd(3) by (rule spread_agrees)
  from w0 w1 w2 d0 d1 c
  show "agrees (BW ! 0) (at_index (wildCard SC) 0)" "agrees (BW ! 1) (at_index (wildCard SC) 1)"
    "agrees (BW ! 2) (at_index (wildCard SC) 2)"
    "agrees (BD ! 0) (at_index (divisional SC) 0)" "agrees (BD ! 1) (at_index (divisional SC) 1)"
    "agrees BC (championship SC)"
    by -
qed

lemma fresh_facts:
  assumes "freshBracket F"
  shows "3 \<le> length (wildCard (afc F))" "3 \<le> length (wildCard (nfc F))"
    and "winner (wildCard (afc F) ! 0) = None" "winner (wildCard (afc F) ! 1) = None"
      "winner (wildCard (afc F) ! 2) = None"
    and "winner (wildCard (nfc F) ! 0) = None" "winner (wildCard (nfc F) ! 1) = None"
      "winner (wildCard (nfc F) ! 2) = None"
    and "undecided (at_index (divisional (afc F)) 0)" "undecided (at_index (divisional (afc F)) 1)"
      "undecided (championship (afc F))"
    and "undecided (at_index (divisional (nfc F)) 0)" "undecided (at_index (divisional (nfc F)) 1)"
      "undecided (championship (nfc F))"
    and "undecided (superBowl F)"
proof -
  from assms show s: "3 \<le> length (wildCard (afc F))" "3 \<le> length (wildCard (nfc F))"
    by (simp_all add: freshBracket_def)
  from assms have u: "undecided (at_index (wildCard (afc F)) 0)"
    "undecided (at_index (wildCard (afc F)) 1)" "undecided (at_index (wildCard (afc F)) 2)"
    "undecided (at_index (wildCard (nfc F)) 0)"
    "undecided (at_index (wildCard (nfc F)) 1)" "undecided (at_index (wildCard (nfc F)) 2)"
    by (simp_all add: freshBracket_def getAllMatchupsOrdered_def)
  have i: "at_index xs 0 = Some (xs ! 0)" "at_index xs 1 = Some (xs ! 1)"
    "at_index xs 2 = Some (xs ! 2)" if "3 \<le> length xs" for xs :: "matchup list"
    using that by (auto simp add: at_index_def)
  have w: "undecided (Some m) \<Longrightarrow> winner m = None" for m
    by (simp add: undecided_def)
  from u(1) show "winner (wildCard (afc F) ! 0) = None" unfolding i(1) [OF s(1)] by (rule w)
  from u(2) show "winner (wildCard (afc F) ! 1) = None" unfolding i(2) [OF s(1)] by (rule w)
  from u(3) show "winner (wildCard (afc F) ! 2) = None" unfolding i(3) [OF s(1)] by (rule w)
  from u(4) show "winner (wildCard (nfc F) ! 0) = None" unfolding i(1) [OF s(2)] by (rule w)
  from u(5) show "winner (wildCard (nfc F) ! 1) = None" unfolding i(2) [OF s(2)] by (rule w)
  from u(6) show "winner (wildCard (nfc F) ! 2) = None" unfolding i(3) [OF s(2)] by (rule w)
  from assms show "undecided (at_index (divisional (afc F)) 0)" "undecided (at_index (divisional (afc F)) 1)"
      "undecided (championship (afc F))"
    "undecided (at_index (divisional (nfc F)) 0)" "undecided (at_index (divisional (nfc F)) 1)"
      "undecided (championship (nfc F))"
    "undecided (superBowl F)"
    by (simp_all add: freshBracket_def getAllMatchupsOrdered_def)
qed

lemma bracket_codes_at:
  "at_index (bracketCodes S) 0 = Some (getWinnerCode (at_index (wildCard (afc S)) 0))"
  "at_index (bracketCodes S) 1 = Some (getWinnerCode (at_index (wildCard (afc S)) 1))"
  "at_index (bracketCodes S) 2 = Some (getWinnerCode (at_index (wildCard (afc S)) 2))"
  "at_index (bracketCodes S) 3 = Some (getWinnerCode (at_index (wildCard (nfc S)) 0))"
  "at_index (bracketCodes S) 4 = Some (getWinnerCode (at_index (wildCard (nfc S)) 1))"
  "at_index (bracketCodes S) 5 = Some (getWinnerCode (at_index (wildCard (nfc S)) 2))"
  "at_index (bracketCodes S) 6 = Some (getWinnerCode (at_index (divisional (afc S)) 0))"
  "at_index (bracketCodes S) 7 = Some (getWinnerCode (at_index (divisional (afc S)) 1))"
  "at_index (bracketCodes S) 8 = Some (getWinnerCode (at_index (divisional (nfc S)) 0))"
  "at_index (bracketCodes S) 9 = Some (getWinnerCode (at_index (divisional (nfc S)) 1))"
  "at_index (bracketCodes S) 10 = Some (getWinnerCode (championship (afc S)))"
  "at_index (bracketCodes S) 11 = Some (getWinnerCode (championship (nfc S)))"
  "at_index (bracketCodes S) 12 = Some (getWinnerCode (superBowl S))"
  unfolding bracketCodes_explicit by (simp_all add: at_index_def)

text \<open>The matchups of the result, in the fixed order, agree with those of the valid bracket.\<close>

lemma apply_agrees:
  assumes fresh: "freshBracket (createInitialBracketFn rules (userName S))"
    and valid: "validBracket rules S"
  shows "\<exists>B xs. applyPicksToFreshBracket rules (bracketCodes S) (userName S) = Inr B
    \<and> getAllMatchupsOrdered B = map Some xs
    \<and> list_all2 agrees xs (getAllMatchupsOrdered S)"
proof -
  let ?F = "createInitialBracketFn rules (userName S)"
  note f = fresh_facts [OF fresh]
  note c = bracket_codes_at [of S]
  from valid have va: "validConference rules AFC (afc ?F) (afc S)"
    and vn: "validConference rules NFC (nfc ?F) (nfc S)"
    and vs: "matchupValid (winnerOf (championship (afc S))) (winnerOf (championship (nfc S)))
            (superBowl S)"
    unfolding validBracket_def Let_def by blast+
  from apply_fields [OF f(1,2), of "bracketCodes S"] obtain B where
    B: "applyPicksToFreshBracket rules (bracketCodes S) (userName S) = Inr B"
    and wa: "wildCard (afc B) =
        [applyCode (wildCard (afc ?F) ! 0) (Some (getWinnerCode (at_index (wildCard (afc S)) 0))),
         applyCode (wildCard (afc ?F) ! 1) (Some (getWinnerCode (at_index (wildCard (afc S)) 1))),
         applyCode (wildCard (afc ?F) ! 2) (Some (getWinnerCode (at_index (wildCard (afc S)) 2)))]"
    and wn: "wildCard (nfc B) =
        [applyCode (wildCard (nfc ?F) ! 0) (Some (getWinnerCode (at_index (wildCard (nfc S)) 0))),
         applyCode (wildCard (nfc ?F) ! 1) (Some (getWinnerCode (at_index (wildCard (nfc S)) 1))),
         applyCode (wildCard (nfc ?F) ! 2) (Some (getWinnerCode (at_index (wildCard (nfc S)) 2)))]"
    and da: "divisional (afc B) =
        [applyCode (spreadWithTeams (at_index (divisional (afc ?F)) 0)
           (home (matchup1 (calculateDivisionalMatchupsFn rules AFC (map winner (wildCard (afc B))))))
           (away (matchup1 (calculateDivisionalMatchupsFn rules AFC (map winner (wildCard (afc B)))))))
           (Some (getWinnerCode (at_index (divisional (afc S)) 0))),
         applyCode (spreadWithTeams (at_index (divisional (afc ?F)) 1)
           (home (matchup2 (calculateDivisionalMatchupsFn rules AFC (map winner (wildCard (afc B))))))
           (away (matchup2 (calculateDivisionalMatchupsFn rules AFC (map winner (wildCard (afc B)))))))
           (Some (getWinnerCode (at_index (divisional (afc S)) 1)))]"
    and dn: "divisional (nfc B) =
        [applyCode (spreadWithTeams (at_index (divisional (nfc ?F)) 0)
           (home (matchup1 (calculateDivisionalMatchupsFn rules NFC (map winner (wildCard (nfc B))))))
           (away (matchup1 (calculateDivisionalMatchupsFn rules NFC (map winner (wildCard (nfc B)))))))
           (Some (getWinnerCode (at_index (divisional (nfc S)) 0))),
         applyCode (spreadWithTeams (at_index (divisional (nfc ?F)) 1)
           (home (matchup2 (calculateDivisionalMatchupsFn rules NFC (map winner (wildCard (nfc B))))))
           (away (matchup2 (calculateDivisionalMatchupsFn rules NFC (map winner (wildCard (nfc B)))))))
           (Some (getWinnerCode (at_index (divisional (nfc S)) 1)))]"
    and ca: "championship (afc B) =
        Some (applyCode (spreadWithTeams (championship (afc ?F))
          (home (calculateChampionshipMatchupFn rules (map winner (divisional (afc B)))))
          (away (calculateChampionshipMatchupFn rules (map winner (divisional (afc B))))))
          (Some (getWinnerCode (championship (afc S)))))"
    and cn: "championship (nfc B) =
        Some (applyCode (spreadWithTeams (championship (nfc ?F))
          (home (calculateChampionshipMatchupFn rules (map winner (divisional (nfc B)))))
          (away (calculateChampionshipMatchupFn rules (map winner (divisional (nfc B))))))
          (Some (getWinnerCode (championship (nfc S)))))"
    and su: "superBowl B =
        Some (applyCode (spreadWithTeams (superBowl ?F)
          (winnerOf (championship (afc B))) (winnerOf (championship (nfc B))))
          (Some (getWinnerCode (superBowl S))))"
    unfolding c by blast
  obtain xa where xa: "championship (afc B) = Some xa" using ca by blast
  obtain xn where xn: "championship (nfc B) = Some xn" using cn by blast
  obtain xs where xs: "superBowl B = Some xs" using su by blast
  have ca': "xa = applyCode (spreadWithTeams (championship (afc ?F))
          (home (calculateChampionshipMatchupFn rules (map winner (divisional (afc B)))))
          (away (calculateChampionshipMatchupFn rules (map winner (divisional (afc B))))))
          (Some (getWinnerCode (championship (afc S))))"
    using ca xa by simp
  have cn': "xn = applyCode (spreadWithTeams (championship (nfc ?F))
          (home (calculateChampionshipMatchupFn rules (map winner (divisional (nfc B)))))
          (away (calculateChampionshipMatchupFn rules (map winner (divisional (nfc B))))))
          (Some (getWinnerCode (championship (nfc S))))"
    using cn xn by simp
  note a = conference_agrees [OF va f(3,4,5) f(9,10,11) wa da ca']
  note n = conference_agrees [OF vn f(6,7,8) f(12,13,14) wn dn cn']
  have cw: "winnerOf (championship (afc B)) = winnerOf (championship (afc S))"
    "winnerOf (championship (nfc B)) = winnerOf (championship (nfc S))"
    using agrees_winner [OF a(6)] agrees_winner [OF n(6)] xa xn
    by (simp_all add: winnerOf_def)
  have "agrees (applyCode (spreadWithTeams (superBowl ?F)
          (winnerOf (championship (afc S))) (winnerOf (championship (nfc S))))
          (Some (getWinnerCode (superBowl S)))) (superBowl S)"
    using vs f(15) by (rule spread_agrees)
  then have s: "agrees xs (superBowl S)"
    using su xs unfolding cw by simp
  let ?xs = "[wildCard (afc B) ! 0, wildCard (afc B) ! 1, wildCard (afc B) ! 2,
      wildCard (nfc B) ! 0, wildCard (nfc B) ! 1, wildCard (nfc B) ! 2,
      divisional (afc B) ! 0, divisional (afc B) ! 1, divisional (nfc B) ! 0, divisional (nfc B) ! 1,
      xa, xn, xs]"
  have la: "length (wildCard (afc B)) = 3" "length (wildCard (nfc B)) = 3"
    "length (divisional (afc B)) = 2" "length (divisional (nfc B)) = 2"
    unfolding wa wn da dn by simp_all
  have g: "getAllMatchupsOrdered B = map Some ?xs"
    unfolding getAllMatchupsOrdered_def using la xa xn xs by (simp add: at_index_def)
  have "list_all2 agrees ?xs (getAllMatchupsOrdered S)"
    unfolding getAllMatchupsOrdered_def using a n s by simp
  with B g show ?thesis by blast
qed

lemma agrees_lists:
  assumes "list_all2 agrees xs ms"
  shows "map getWinnerCode (map Some xs) = map getWinnerCode ms"
    and "map winnerOf (map Some xs) = map winnerOf ms"
proof -
  from assms show "map getWinnerCode (map Some xs) = map getWinnerCode ms"
    by (induction rule: list_all2_induct) (simp_all add: agrees_def)
  from assms show "map winnerOf (map Some xs) = map winnerOf ms"
    by (induction rule: list_all2_induct) (simp_all add: agrees_def winnerOf_def)
qed

lemma undecided_matchupValid: "undecided mo \<Longrightarrow> matchupValid h a mo"
  by (auto simp: undecided_def matchupValid_def split: option.splits)

text \<open>A bracket without any winner is valid, whatever its slots hold.\<close>

lemma undecided_valid:
  assumes "list_all undecided (getAllMatchupsOrdered S)"
  shows "validBracket rules S"
proof -
  from assms have "undecided (at_index (wildCard (afc S)) 0)" "undecided (at_index (wildCard (afc S)) 1)"
    "undecided (at_index (wildCard (afc S)) 2)" "undecided (at_index (wildCard (nfc S)) 0)"
    "undecided (at_index (wildCard (nfc S)) 1)" "undecided (at_index (wildCard (nfc S)) 2)"
    "undecided (at_index (divisional (afc S)) 0)" "undecided (at_index (divisional (afc S)) 1)"
    "undecided (at_index (divisional (nfc S)) 0)" "undecided (at_index (divisional (nfc S)) 1)"
    "undecided (championship (afc S))" "undecided (championship (nfc S))" "undecided (superBowl S)"
    by (simp_all add: getAllMatchupsOrdered_def)
  then show ?thesis
    unfolding validBracket_def validConference_def Let_def
    by (intro conjI undecided_matchupValid)
qed

text \<open>The fresh bracket of the rules is valid, and the rules of the specification give a
  fresh bracket for every seeding and owner.\<close>

lemma fresh_valid:
  "freshBracket F \<Longrightarrow> validBracket rules F"
  by (rule undecided_valid) (simp add: freshBracket_def)

lemma createInitialBracket_fresh:
  "freshBracket (createInitialBracketFn (playoffRules seeds) name)"
  by (simp add: freshBracket_def playoffRules_def createInitialBracket_def initialConference_def
      getAllMatchupsOrdered_def at_index_def undecided_def seededMatchup_def emptyMatchup_def)

text \<open>
  Claim C1.  For every valid bracket \<open>S\<close>, over playoff rules whose fresh bracket for the
  owner of \<open>S\<close> has its three wild card matchups per conference and no winner yet,
  encoding \<open>S\<close>, decoding the token and applying the codes to a fresh bracket with the
  owner name of \<open>S\<close> returns a bracket whose 13 matchups, in the fixed order, carry the
  same winner decisions as \<open>S\<close>: the same codes (home, away, no pick) and the same
  winning teams; a matchup that is decided in \<open>S\<close> comes back with the same two teams
  and the same winner.  Valid brackets include the fresh bracket, brackets that are
  decided in part, and brackets whose championship or Super Bowl is \<^verbatim>\<open>null\<close>.
\<close>

theorem round_trip_winner_decisions:
  assumes fresh: "freshBracket (createInitialBracketFn rules (userName S))"
    and valid: "validBracket rules S"
  shows "\<exists>B. roundTrip rules S = Inr B
    \<and> bracketCodes B = bracketCodes S
    \<and> map winnerOf (getAllMatchupsOrdered B) = map winnerOf (getAllMatchupsOrdered S)
    \<and> (\<forall>i<13. \<forall>m. getAllMatchupsOrdered S ! i = Some m \<and> winner m \<noteq> None \<longrightarrow>
          (\<exists>x. getAllMatchupsOrdered B ! i = Some x
             \<and> homeTeam x = homeTeam m \<and> awayTeam x = awayTeam m \<and> winner x = winner m))"
proof -
  from apply_agrees [OF fresh valid] obtain B xs where
    B: "applyPicksToFreshBracket rules (bracketCodes S) (userName S) = Inr B"
    and g: "getAllMatchupsOrdered B = map Some xs"
    and r: "list_all2 agrees xs (getAllMatchupsOrdered S)"
    by blast
  have rt: "roundTrip rules S = Inr B"
    by (simp add: roundTrip_def decode_encode B)
  have c: "bracketCodes B = bracketCodes S"
    unfolding bracketCodes_def g by (rule agrees_lists(1) [OF r])
  have w: "map winnerOf (getAllMatchupsOrdered B) = map winnerOf (getAllMatchupsOrdered S)"
    unfolding g by (rule agrees_lists(2) [OF r])
  have len: "length xs = 13"
    using list_all2_lengthD [OF r] by (simp add: getAllMatchupsOrdered_def)
  have d: "\<exists>x. getAllMatchupsOrdered B ! i = Some x
             \<and> homeTeam x = homeTeam m \<and> awayTeam x = awayTeam m \<and> winner x = winner m"
    if "i < 13" "getAllMatchupsOrdered S ! i = Some m \<and> winner m \<noteq> None" for i m
  proof -
    from that(1) len have i: "i < length xs" by simp
    from list_all2_nthD [OF r i] that(2) have "sameGame (xs ! i) m"
      by (simp add: agrees_def)
    moreover from i have "getAllMatchupsOrdered B ! i = Some (xs ! i)"
      unfolding g by simp
    ultimately show ?thesis by (simp add: sameGame_def)
  qed
  from rt c w d show ?thesis
    by (intro exI [of _ B] conjI allI impI)
qed

lemma sample_valid: "validBracket sampleRules sampleBracket"
  by code_simp

lemma sample_null_valid: "validBracket sampleRules sampleNullBracket"
  by code_simp

lemma sample_names:
  "userName sampleBracket = ''Sam''" "userName sampleFresh = ''Sam''"
  "userName sampleNullBracket = ''Sam''"
  by code_simp+

lemma sample_codes_of:
  "bracketCodes sampleBracket = [1, 2, 1, 1, 1, 2, 1, 2, 1, 1, 2, 1, 2]"
  "bracketCodes sampleFresh = [0, 0, 0, 0, 0, 0, 0, 0, 0, 0, 0, 0, 0]"
  "bracketCodes sampleNullBracket = [2, 0, 0, 0, 0, 0, 0, 0, 0, 0, 0, 0, 0]"
  by code_simp+

lemma sample_null_absent:
  "championship (afc sampleNullBracket) = None" "championship (nfc sampleNullBracket) = None"
  "superBowl sampleNullBracket = None"
  by (simp_all add: sampleNullBracket_def)

theorem round_trip_winner_decisions_witness:
  "freshBracket (createInitialBracketFn sampleRules ''Sam'')
   \<and> validBracket sampleRules sampleBracket
   \<and> (\<exists>B. roundTrip sampleRules sampleBracket = Inr B
        \<and> bracketCodes B = [1, 2, 1, 1, 1, 2, 1, 2, 1, 1, 2, 1, 2])
   \<and> validBracket sampleRules sampleFresh
   \<and> (\<exists>B. roundTrip sampleRules sampleFresh = Inr B
        \<and> bracketCodes B = [0, 0, 0, 0, 0, 0, 0, 0, 0, 0, 0, 0, 0])
   \<and> championship (afc sampleNullBracket) = None
   \<and> superBowl sampleNullBracket = None
   \<and> validBracket sampleRules sampleNullBracket
   \<and> (\<exists>B. roundTrip sampleRules sampleNullBracket = Inr B
        \<and> bracketCodes B = [2, 0, 0, 0, 0, 0, 0, 0, 0, 0, 0, 0, 0])"
proof -
  have f: "freshBracket (createInitialBracketFn sampleRules ''Sam'')"
    unfolding sampleRules_def by (rule createInitialBracket_fresh)
  have vf: "validBracket sampleRules sampleFresh"
    using f by (intro fresh_valid) (simp add: sampleFresh_def sampleRules_def playoffRules_def)
  from round_trip_winner_decisions [of sampleRules sampleBracket] f sample_valid
  obtain B1 where "roundTrip sampleRules sampleBracket = Inr B1"
    "bracketCodes B1 = bracketCodes sampleBracket"
    unfolding sample_names by blast
  then have 1: "\<exists>B. roundTrip sampleRules sampleBracket = Inr B
        \<and> bracketCodes B = [1, 2, 1, 1, 1, 2, 1, 2, 1, 1, 2, 1, 2]"
    unfolding sample_codes_of by blast
  from round_trip_winner_decisions [of sampleRules sampleFresh] f vf
  obtain B2 where "roundTrip sampleRules sampleFresh = Inr B2"
    "bracketCodes B2 = bracketCodes sampleFresh"
    unfolding sample_names by blast
  then have 2: "\<exists>B. roundTrip sampleRules sampleFresh = Inr B
        \<and> bracketCodes B = [0, 0, 0, 0, 0, 0, 0, 0, 0, 0, 0, 0, 0]"
    unfolding sample_codes_of by blast
  from round_trip_winner_decisions [of sampleRules sampleNullBracket] f sample_null_valid
  obtain B3 where "roundTrip sampleRules sampleNullBracket = Inr B3"
    "bracketCodes B3 = bracketCodes sampleNullBracket"
    unfolding sample_names by blast
  then have 3: "\<exists>B. roundTrip sampleRules sampleNullBracket = Inr B
        \<and> bracketCodes B = [2, 0, 0, 0, 0, 0, 0, 0, 0, 0, 0, 0, 0]"
    unfolding sample_codes_of by blast
  from f sample_valid 1 vf 2 sample_null_absent(1,3) sample_null_valid 3 show ?thesis
    by (intro conjI)
qed

end
